theory Spec2Isabelle
  imports Complex_Main "HOL-Library.AList"
begin

section \<open>Python values and control flow used by \<open>get_vcf_frqs.py\<close>\<close>

text \<open>
  The script raises no exception of its own; every failure is one of Python's built-in
  exceptions escaping to the top level. They are values here. A \<open>KeyError\<close> carries the
  missing key, as Python's message does.
\<close>

datatype py_key = IntKey nat | StrKey string

datatype py_error = KeyError py_key | IndexError | ZeroDivisionError | NameError string

text \<open>
  A Python \<open>dict\<close> keeps its keys in insertion order, and the script's output depends on
  that order, so a dict is an association list. Assigning to a key is
  \<^const>\<open>AList.update\<close>: an existing key keeps its position, a new key goes to the end.
\<close>

type_synonym ('k, 'v) dict = "('k \<times> 'v) list"

definition dict_get :: "(string, 'v) dict \<Rightarrow> string \<Rightarrow> py_error + 'v" where
  "dict_get d k = (case map_of d k of None \<Rightarrow> Inl (KeyError (StrKey k)) | Some v \<Rightarrow> Inr v)"

text \<open>\<open>d[k]\<close> on a \<open>defaultdict\<close>: a missing key is first inserted with the default.\<close>

definition defaultdict_touch :: "'v \<Rightarrow> ('k, 'v) dict \<Rightarrow> 'k \<Rightarrow> ('k, 'v) dict" where
  "defaultdict_touch dflt d k = (case map_of d k of None \<Rightarrow> d @ [(k, dflt)] | Some v \<Rightarrow> d)"

definition defaultdict_get :: "'v \<Rightarrow> ('k, 'v) dict \<Rightarrow> 'k \<Rightarrow> 'v" where
  "defaultdict_get dflt d k = (case map_of d k of None \<Rightarrow> dflt | Some v \<Rightarrow> v)"

text \<open>A \<open>for\<close> loop whose body may raise: the first exception ends the loop.\<close>

fun for_each :: "('a \<Rightarrow> 's \<Rightarrow> py_error + 's) \<Rightarrow> 'a list \<Rightarrow> 's \<Rightarrow> py_error + 's" where
  "for_each body [] s = Inr s"
| "for_each body (x # xs) s =
     (case body x s of Inl e \<Rightarrow> Inl e | Inr s' \<Rightarrow> for_each body xs s')"

text \<open>A list comprehension whose element expression may raise.\<close>

fun comprehension :: "('a \<Rightarrow> py_error + 'b) \<Rightarrow> 'a list \<Rightarrow> py_error + 'b list" where
  "comprehension f [] = Inr []"
| "comprehension f (x # xs) =
     (case f x of Inl e \<Rightarrow> Inl e
      | Inr y \<Rightarrow> (case comprehension f xs of Inl e \<Rightarrow> Inl e | Inr ys \<Rightarrow> Inr (y # ys)))"

subsection \<open>String methods\<close>

text \<open>
  Text is a list of HOL characters, which are the code points below 256. On these,
  \<open>isspace\<close> is Python's \<open>str.isspace\<close>, the whitespace that \<open>rstrip()\<close> and \<open>split()\<close>
  recognise: the ASCII whitespace and separators, the next-line control \<open>U+0085\<close> and the
  no-break space \<open>U+00A0\<close>. And \<open>isdigit\<close> is Python's \<open>str.isdigit\<close>: the ten decimal
  digits and the superscript digits \<open>U+00B2\<close>, \<open>U+00B3\<close> and \<open>U+00B9\<close>.
\<close>

definition isspace :: "char \<Rightarrow> bool" where
  "isspace c \<longleftrightarrow>
     c \<in> {CHR 0x09, CHR 0x0A, CHR 0x0B, CHR 0x0C, CHR 0x0D,
          CHR 0x1C, CHR 0x1D, CHR 0x1E, CHR 0x1F, CHR 0x20, CHR 0x85, CHR 0xA0}"

definition isdigit :: "char \<Rightarrow> bool" where
  "isdigit c \<longleftrightarrow> c \<in> set ''0123456789'' \<or> c \<in> {CHR 0xB2, CHR 0xB3, CHR 0xB9}"

definition rstrip :: "string \<Rightarrow> string" where
  "rstrip s = rev (dropWhile isspace (rev s))"

definition startswith :: "string \<Rightarrow> string \<Rightarrow> bool" where
  "startswith s p \<longleftrightarrow> take (length p) s = p"

text \<open>\<open>s.split(c)\<close> for a one-character separator: never empty, empty tokens are kept.\<close>

fun split_on :: "char \<Rightarrow> string \<Rightarrow> string list" where
  "split_on c [] = [[]]"
| "split_on c (x # xs) =
     (if x = c then [] # split_on c xs
      else (case split_on c xs of [] \<Rightarrow> [[x]] | t # ts \<Rightarrow> (x # t) # ts))"

text \<open>
  \<open>s.split()\<close>: the maximal runs of non-whitespace characters; \<open>cur\<close> is the run being
  read, reversed.
\<close>

fun split_ws_from :: "string \<Rightarrow> string \<Rightarrow> string list" where
  "split_ws_from cur [] = (if cur = [] then [] else [rev cur])"
| "split_ws_from cur (x # xs) =
     (if isspace x then (if cur = [] then split_ws_from [] xs else rev cur # split_ws_from [] xs)
      else split_ws_from (x # cur) xs)"

definition split_ws :: "string \<Rightarrow> string list" where
  "split_ws s = split_ws_from [] s"

text \<open>\<open>sep.join(xs)\<close>.\<close>

fun join :: "string \<Rightarrow> string list \<Rightarrow> string" where
  "join sep [] = []"
| "join sep [x] = x"
| "join sep (x # y # ys) = x @ sep @ join sep (y # ys)"

text \<open>\<open>s.count('1')\<close> and \<open>sum(character.isdigit() for character in s)\<close>.\<close>

definition count_ones :: "string \<Rightarrow> nat" where
  "count_ones s = count_list s CHR ''1''"

definition count_digits :: "string \<Rightarrow> nat" where
  "count_digits s = length (filter isdigit s)"

text \<open>\<open>xs[-k]\<close> for \<open>k > 0\<close>.\<close>

definition index_from_end :: "'a list \<Rightarrow> nat \<Rightarrow> py_error + 'a" where
  "index_from_end xs k =
     (if 0 < k \<and> k \<le> length xs then Inr (xs ! (length xs - k)) else Inl IndexError)"

text \<open>\<open>str(n)\<close> for a non-negative integer.\<close>

fun str_nat :: "nat \<Rightarrow> string" where
  "str_nat n =
     (if n < 10 then [''0123456789'' ! n]
      else str_nat (n div 10) @ [''0123456789'' ! (n mod 10)])"

declare str_nat.simps [simp del]

section \<open>\<open>get_groupings\<close>\<close>

text \<open>
  The grouping file is the list of its lines, as the file iterator yields them. The
  function returns \<open>grouping_dict\<close> (individual to grouping system to label) and
  \<open>grouping_headers\<close> (grouping system to the set of its labels).
\<close>

type_synonym grouping_dict = "(string, (string, string) dict) dict"
type_synonym grouping_headers = "(string, string set) dict"

text \<open>
  \<open>header_names\<close> maps \<open>group_index\<close> to \<open>header_fields[group_index + 1]\<close>, for
  \<open>group_index\<close> in \<open>range(len(header_fields[1:]))\<close>.
\<close>

definition header_names_of :: "string list \<Rightarrow> (nat \<rightharpoonup> string)" where
  "header_names_of header_fields =
     fold (\<lambda>group_index names. names(group_index \<mapsto> header_fields ! (group_index + 1)))
       [0 ..< length (drop 1 header_fields)] Map.empty"

definition header_name :: "(nat \<rightharpoonup> string) \<Rightarrow> nat \<Rightarrow> py_error + string" where
  "header_name names group_index =
     (case names group_index of None \<Rightarrow> Inl (KeyError (IntKey group_index)) | Some n \<Rightarrow> Inr n)"

text \<open>The body of the inner loop of \<open>get_groupings\<close>, for one field of one row.\<close>

definition add_grouping ::
  "(nat \<rightharpoonup> string) \<Rightarrow> string list \<Rightarrow> nat \<Rightarrow> grouping_dict \<times> grouping_headers \<Rightarrow>
     py_error + grouping_dict \<times> grouping_headers" where
  "add_grouping names fields group_index = (\<lambda>(grouping_dict, grouping_headers).
     let touched = defaultdict_touch [] grouping_dict (fields ! 0) in
     case header_name names group_index of
       Inl e \<Rightarrow> Inl e
     | Inr system \<Rightarrow>
         let label = fields ! (group_index + 1);
             entry = AList.update system label (defaultdict_get [] touched (fields ! 0));
             labels = insert label (defaultdict_get {} grouping_headers system)
         in Inr (AList.update (fields ! 0) entry touched,
                 AList.update system labels grouping_headers))"

definition add_row ::
  "(nat \<rightharpoonup> string) \<Rightarrow> string \<Rightarrow> grouping_dict \<times> grouping_headers \<Rightarrow>
     py_error + grouping_dict \<times> grouping_headers" where
  "add_row names line =
     (let fields = split_ws (rstrip line)
      in for_each (add_grouping names fields) [0 ..< length (drop 1 fields)])"

definition get_groupings :: "string list \<Rightarrow> py_error + grouping_dict \<times> grouping_headers" where
  "get_groupings file_lines =
     (let header = (case file_lines of [] \<Rightarrow> [] | h # _ \<Rightarrow> h);
          header_fields = split_ws (rstrip header);
          names = header_names_of header_fields
      in for_each (add_row names) (drop 1 file_lines) ([], []))"

section \<open>\<open>get_frequencies\<close>\<close>

text \<open>
  \<open>group_index_list\<close> maps a group label to the set of column positions of its members.
  The quotient \<open>sums[g] / counts[g]\<close> is Python's true division of two integers; it is
  modelled by the exact rational, of which Python's float is the nearest double.
\<close>

type_synonym group_sets = "(string, nat set) dict"

definition init_group :: "string \<Rightarrow>
    (string, nat) dict \<times> (string, nat) dict \<times> (string, rat) dict \<Rightarrow>
    (string, nat) dict \<times> (string, nat) dict \<times> (string, rat) dict" where
  "init_group group_name = (\<lambda>(sums', counts, frqs).
     (AList.update group_name 0 sums', AList.update group_name 0 counts,
      AList.update group_name 0 frqs))"

text \<open>The body of the counting loop for one individual and one group.\<close>

definition count_group ::
  "string list \<Rightarrow> nat \<Rightarrow> string \<times> nat set \<Rightarrow> (string, nat) dict \<times> (string, nat) dict \<Rightarrow>
     py_error + (string, nat) dict \<times> (string, nat) dict" where
  "count_group genotype_list individual_index = (\<lambda>(group_name, members) (sums', counts).
     if individual_index \<in> members then
       (case dict_get sums' group_name of
          Inl e \<Rightarrow> Inl e
        | Inr s \<Rightarrow>
            (case dict_get counts group_name of
               Inl e \<Rightarrow> Inl e
             | Inr c \<Rightarrow>
                 Inr (AList.update group_name
                        (s + count_ones (genotype_list ! individual_index)) sums',
                      AList.update group_name
                        (c + count_digits (genotype_list ! individual_index)) counts)))
     else Inr (sums', counts))"

definition count_individual ::
  "string list \<Rightarrow> group_sets \<Rightarrow> nat \<Rightarrow> (string, nat) dict \<times> (string, nat) dict \<Rightarrow>
     py_error + (string, nat) dict \<times> (string, nat) dict" where
  "count_individual genotype_list group_index_list individual_index =
     for_each (count_group genotype_list individual_index) group_index_list"

text \<open>The body of the last loop: the division, which raises when the count is zero.\<close>

definition divide_group ::
  "(string, nat) dict \<Rightarrow> (string, nat) dict \<Rightarrow> string \<Rightarrow> (string, rat) dict \<Rightarrow>
     py_error + (string, rat) dict" where
  "divide_group sums' counts group_name frqs =
     (case dict_get sums' group_name of
        Inl e \<Rightarrow> Inl e
      | Inr s \<Rightarrow>
          (case dict_get counts group_name of
             Inl e \<Rightarrow> Inl e
           | Inr c \<Rightarrow>
               if c = 0 then Inl ZeroDivisionError
               else Inr (AList.update group_name (of_nat s / of_nat c) frqs)))"

text \<open>The first two loops: the dictionaries are initialised, then every call is counted.\<close>

definition count_calls ::
  "string list \<Rightarrow> group_sets \<Rightarrow>
     py_error + (string, nat) dict \<times> (string, nat) dict \<times> (string, rat) dict" where
  "count_calls genotype_list group_index_list =
     (case fold init_group (map fst group_index_list) ([], [], []) of
        (sums0, counts0, frqs0) \<Rightarrow>
          (case for_each (count_individual genotype_list group_index_list)
                  [0 ..< length genotype_list] (sums0, counts0) of
             Inl e \<Rightarrow> Inl e
           | Inr (sums', counts) \<Rightarrow> Inr (sums', counts, frqs0)))"

definition get_frequencies ::
  "string list \<Rightarrow> group_sets \<Rightarrow> py_error + (string, rat) dict \<times> (string, nat) dict" where
  "get_frequencies genotype_list group_index_list =
     (case count_calls genotype_list group_index_list of
        Inl e \<Rightarrow> Inl e
      | Inr (sums', counts, frqs0) \<Rightarrow>
          (case for_each (divide_group sums' counts) (map fst group_index_list) frqs0 of
             Inl e \<Rightarrow> Inl e
           | Inr frqs \<Rightarrow> Inr (frqs, counts)))"

section \<open>\<open>main\<close>\<close>

abbreviation tab :: char where "tab \<equiv> CHR 0x09"
abbreviation newline :: char where "newline \<equiv> CHR 0x0A"

text \<open>\<open>use_iid\<close>: 2 with \<open>--use-fid\<close>, 1 without.\<close>

definition use_iid_of :: "bool \<Rightarrow> nat" where
  "use_iid_of use_fid = (if use_fid then 2 else 1)"

text \<open>\<open>sample_name.split("_")[-use_iid]\<close>.\<close>

definition resolve_sample :: "nat \<Rightarrow> string \<Rightarrow> py_error + string" where
  "resolve_sample use_iid sample_name = index_from_end (split_on CHR ''_'' sample_name) use_iid"

text \<open>\<open>group_sets[group_type].add(individual_index)\<close>, where \<open>group_sets\<close> is a
  \<open>defaultdict(set)\<close>.\<close>

definition add_member :: "nat \<Rightarrow> string \<Rightarrow> group_sets \<Rightarrow> group_sets" where
  "add_member individual_index group_type group_sets =
     (let touched = defaultdict_touch {} group_sets group_type
      in AList.update group_type
           (insert individual_index (defaultdict_get {} touched group_type)) touched)"

text \<open>
  The body of the loop over the samples. \<open>grouping_info\<close> is a \<open>defaultdict(dict)\<close>, so
  looking up a sample that the grouping file does not have yields an empty dict (and
  stores it); \<open>.values()\<close> are the labels in the order of the grouping systems.
\<close>

definition add_individual ::
  "string list \<Rightarrow> nat \<Rightarrow> grouping_dict \<times> group_sets \<Rightarrow> grouping_dict \<times> group_sets" where
  "add_individual sample_names individual_index = (\<lambda>(grouping_info, group_sets).
     let touched = defaultdict_touch [] grouping_info (sample_names ! individual_index);
         labels = map snd (defaultdict_get [] touched (sample_names ! individual_index))
     in (touched, fold (add_member individual_index) labels group_sets))"

definition build_group_sets :: "grouping_dict \<Rightarrow> string list \<Rightarrow> grouping_dict \<times> group_sets" where
  "build_group_sets grouping_info sample_names =
     fold (add_individual sample_names) [0 ..< length sample_names] (grouping_info, [])"

text \<open>
  The state of the loop over the lines of the variant file: \<open>grouping_info\<close>, the variable
  \<open>group_sets\<close> (unbound until a \<open>#CHROM\<close> line has been read) and the text written to the
  output file so far.
\<close>

record run_state =
  st_grouping_info :: grouping_dict
  st_group_sets :: "group_sets option"
  st_ofh :: string

text \<open>A loop whose state survives an exception: what was written stays written.\<close>

fun run_loop :: "('a \<Rightarrow> 's \<Rightarrow> py_error option \<times> 's) \<Rightarrow> 'a list \<Rightarrow> 's \<Rightarrow> py_error option \<times> 's" where
  "run_loop body [] s = (None, s)"
| "run_loop body (x # xs) s =
     (case body x s of (Some e, s') \<Rightarrow> (Some e, s') | (None, s') \<Rightarrow> run_loop body xs s')"

text \<open>
  Python renders the float \<open>freqs[group_name]\<close> with \<open>repr\<close>; that rendering belongs to the
  interpreter, not to the script, and is the parameter \<open>fmt\<close> throughout.
\<close>

definition write_group ::
  "(rat \<Rightarrow> string) \<Rightarrow> (string, nat) dict \<Rightarrow> string \<times> rat \<Rightarrow> string \<Rightarrow> py_error option \<times> string" where
  "write_group fmt count = (\<lambda>(group_name, freq) out.
     case dict_get count group_name of
       Inl e \<Rightarrow> (Some e, out)
     | Inr c \<Rightarrow> (None, out @ [tab] @ fmt freq @ [tab] @ str_nat c))"

definition header_columns :: "group_sets \<Rightarrow> string" where
  "header_columns group_sets =
     concat (map (\<lambda>group_name. [tab] @ group_name @ ''_freq'' @ [tab] @ group_name @ ''_count'')
                 (map fst group_sets))"

definition process_line ::
  "(rat \<Rightarrow> string) \<Rightarrow> nat \<Rightarrow> string \<Rightarrow> run_state \<Rightarrow> py_error option \<times> run_state" where
  "process_line fmt use_iid line s =
     (if \<not> startswith line ''#'' then
        (let fields = split_on tab (rstrip line);
             s1 = s\<lparr>st_ofh := st_ofh s @ join [tab] (take 5 fields)\<rparr>
         in case st_group_sets s1 of
              None \<Rightarrow> (Some (NameError ''group_sets''), s1)
            | Some group_sets \<Rightarrow>
                (case get_frequencies (drop 9 fields) group_sets of
                   Inl e \<Rightarrow> (Some e, s1)
                 | Inr (freqs, count) \<Rightarrow>
                     (case run_loop (write_group fmt count) freqs (st_ofh s1) of
                        (Some e, out) \<Rightarrow> (Some e, s1\<lparr>st_ofh := out\<rparr>)
                      | (None, out) \<Rightarrow> (None, s1\<lparr>st_ofh := out @ [newline]\<rparr>))))
      else if startswith line ''#CHROM'' then
        (case comprehension (resolve_sample use_iid) (drop 9 (split_on tab (rstrip line))) of
           Inl e \<Rightarrow> (Some e, s)
         | Inr sample_names \<Rightarrow>
             (case build_group_sets (st_grouping_info s) sample_names of
                (grouping_info, group_sets) \<Rightarrow>
                  (None, s\<lparr>st_grouping_info := grouping_info,
                            st_group_sets := Some group_sets,
                            st_ofh := st_ofh s @ ''Chr'' @ [tab] @ ''Position'' @ [tab] @ ''rsID''
                                      @ [tab] @ ''Ref'' @ [tab] @ ''Alt''
                                      @ header_columns group_sets @ [newline]\<rparr>)))
      else (None, s))"

text \<open>
  The run: the grouping file is loaded before the output file is opened, so a failure
  there leaves nothing written. The result is the exception that ended the run, if any,
  and the content of the output file.
\<close>

definition main ::
  "(rat \<Rightarrow> string) \<Rightarrow> bool \<Rightarrow> string list \<Rightarrow> string list \<Rightarrow> py_error option \<times> string" where
  "main fmt use_fid grouping_lines vcf_lines =
     (case get_groupings grouping_lines of
        Inl e \<Rightarrow> (Some e, [])
      | Inr (grouping_info, grouping_systems) \<Rightarrow>
          (case run_loop (process_line fmt (use_iid_of use_fid)) vcf_lines
                  \<lparr>st_grouping_info = grouping_info, st_group_sets = None, st_ofh = []\<rparr> of
             (err, s) \<Rightarrow> (err, st_ofh s)))"

section \<open>The quantities of the specification\<close>

text \<open>
  The specification's \<open>S\<close>: the genotype fields at the column positions of a group. Over
  them, \<open>allele_hits\<close> is the number of characters \<open>1\<close>, \<open>call_total\<close> is the number of
  decimal-digit characters, as the specification has it, and \<open>digit_total\<close> is the number
  of characters that \<open>str.isdigit\<close> accepts, which is what the script tallies.
\<close>

definition group_fields :: "string list \<Rightarrow> nat set \<Rightarrow> string list" where
  "group_fields genotype_list members = nths genotype_list members"

definition allele_hits :: "string list \<Rightarrow> nat set \<Rightarrow> nat" where
  "allele_hits genotype_list members =
     count_list (concat (group_fields genotype_list members)) CHR ''1''"

definition digit_total :: "string list \<Rightarrow> nat set \<Rightarrow> nat" where
  "digit_total genotype_list members =
     length (filter isdigit (concat (group_fields genotype_list members)))"



text \<open>
  The order in which the elements of a list are first seen, the labels that the grouping
  table gives a sample (none when the table does not have it), and the pairs of a column
  position and a label of its sample, in the order in which the index builder meets them.
\<close>

fun first_seen_order :: "'a list \<Rightarrow> 'a list" where
  "first_seen_order [] = []"
| "first_seen_order (x # xs) = x # filter (\<lambda>y. y \<noteq> x) (first_seen_order xs)"

definition labels_of :: "grouping_dict \<Rightarrow> string \<Rightarrow> string list" where
  "labels_of grouping_info sample_name = map snd (defaultdict_get [] grouping_info sample_name)"

definition memberships :: "grouping_dict \<Rightarrow> string list \<Rightarrow> nat list \<Rightarrow> (nat \<times> string) list" where
  "memberships grouping_info sample_names positions =
     concat (map (\<lambda>i. map (\<lambda>label. (i, label)) (labels_of grouping_info (sample_names ! i))) positions)"

text \<open>
  \<open>len(fields[1:])\<close> for a line of the grouping file: the number of its fields after the
  first, which for the header is the number of grouping systems and for a row the number
  of labels.
\<close>

definition label_count :: "string \<Rightarrow> nat" where
  "label_count line = length (drop 1 (split_ws (rstrip line)))"

text \<open>
  What the rows of a grouping file assign: for each row, in the order of the file, and for
  each column that both the header and the row have after the first, the individual of the
  row, the grouping system of the column and the label of the row in it. And the lookups
  \<open>table[individual][system]\<close> in the loaded table, and of the label assigned last to an
  individual under a grouping system. \<open>store_label\<close> is one assignment as the loader
  performs it.
\<close>

definition row_assignments :: "string list \<Rightarrow> string list \<Rightarrow> (string \<times> string \<times> string) list" where
  "row_assignments header_fields row_fields =
     map (\<lambda>(system, label). (row_fields ! 0, system, label))
         (zip (drop 1 header_fields) (drop 1 row_fields))"

definition assignments :: "string \<Rightarrow> string list \<Rightarrow> (string \<times> string \<times> string) list" where
  "assignments header rows =
     concat (map (\<lambda>row. row_assignments (split_ws (rstrip header)) (split_ws (rstrip row))) rows)"

definition stored_label :: "grouping_dict \<Rightarrow> string \<Rightarrow> string \<Rightarrow> string option" where
  "stored_label table individual system =
     (case map_of table individual of None \<Rightarrow> None | Some entry \<Rightarrow> map_of entry system)"

definition last_assigned ::
  "(string \<times> string \<times> string) list \<Rightarrow> string \<Rightarrow> string \<Rightarrow> string option" where
  "last_assigned triples individual system =
     map_of (rev (map (\<lambda>(i, s, label). ((i, s), label)) triples)) (individual, system)"

definition store_label :: "string \<times> string \<times> string \<Rightarrow> grouping_dict \<Rightarrow> grouping_dict" where
  "store_label = (\<lambda>(individual, system, label) table.
     AList.update individual
       (AList.update system label (defaultdict_get [] table individual)) table)"

text \<open>
  The lines of the output, as the specification describes them: the columns joined by
  tabs. \<open>header_row\<close> has the five fixed names and two names for each group, \<open>data_row\<close>
  has the first five fields of a data line and, for each group, the rendering of the
  frequency and the count.
\<close>

definition header_row :: "group_sets \<Rightarrow> string" where
  "header_row group_sets =
     join [tab] ([''Chr'', ''Position'', ''rsID'', ''Ref'', ''Alt'']
       @ concat (map (\<lambda>(group_name, members). [group_name @ ''_freq'', group_name @ ''_count''])
                     group_sets))"

definition data_row :: "(rat \<Rightarrow> string) \<Rightarrow> group_sets \<Rightarrow> string list \<Rightarrow> string" where
  "data_row fmt group_sets columns =
     join [tab] (take 5 columns
       @ concat (map (\<lambda>(group_name, members).
                        [fmt (of_nat (allele_hits (drop 9 columns) members)
                              / of_nat (digit_total (drop 9 columns) members)),
                         str_nat (digit_total (drop 9 columns) members)])
                     group_sets))"

text \<open>Auxiliary notions for the proofs: a dict given by its keys and a function on them,
  and what one individual adds to the tally of one group.\<close>

definition tabulate :: "string list \<Rightarrow> (string \<Rightarrow> 'v) \<Rightarrow> (string, 'v) dict" where
  "tabulate ks f = map (\<lambda>g. (g, f g)) ks"

definition contribution ::
  "(string \<Rightarrow> nat) \<Rightarrow> string list \<Rightarrow> group_sets \<Rightarrow> nat \<Rightarrow> string \<Rightarrow> nat" where
  "contribution weight genotype_list gs i g =
     (case map_of gs g of None \<Rightarrow> 0
      | Some members \<Rightarrow> if i \<in> members then weight (genotype_list ! i) else 0)"

section \<open>Example inputs\<close>

text \<open>
  The example of the specification: three samples \<open>A\<close>, \<open>B\<close>, \<open>C\<close>, one grouping system
  with the labels \<open>x\<close>, \<open>y\<close>, \<open>x\<close>, and one variant with the genotypes \<open>0/1\<close>, \<open>1/1\<close>,
  \<open>0/0\<close>.
\<close>

definition example_groups :: "string list" where
  "example_groups = [''ID SYS1'' @ [newline], ''A x'' @ [newline], ''B y'' @ [newline],
                     ''C x'' @ [newline]]"

definition example_header :: string where
  "example_header =
     join [tab] [''#CHROM'', ''POS'', ''ID'', ''REF'', ''ALT'', ''QUAL'', ''FILTER'', ''INFO'',
                 ''FORMAT'', ''S_A'', ''S_B'', ''S_C''] @ [newline]"

definition example_variant :: string where
  "example_variant =
     join [tab] [''1'', ''100'', ''rs1'', ''A'', ''G'', ''.'', ''.'', ''.'', ''GT'',
                 ''0/1'', ''1/1'', ''0/0''] @ [newline]"

definition example_genotypes :: "string list" where
  "example_genotypes = [''0/1'', ''1/1'', ''0/0'']"

definition example_index :: group_sets where
  "example_index = [(''x'', {0, 2}), (''y'', {1})]"

text \<open>What the example yields: the grouping table, and the header line of the output.\<close>

definition example_table :: grouping_dict where
  "example_table =
     [(''A'', [(''SYS1'', ''x'')]), (''B'', [(''SYS1'', ''y'')]), (''C'', [(''SYS1'', ''x'')])]"

definition example_header_text :: string where
  "example_header_text =
     join [tab] [''Chr'', ''Position'', ''rsID'', ''Ref'', ''Alt'',
                 ''x_freq'', ''x_count'', ''y_freq'', ''y_count''] @ [newline]"

text \<open>A variant in which the only member of group \<open>y\<close> has no call.\<close>

definition missing_variant :: string where
  "missing_variant =
     join [tab] [''1'', ''200'', ''rs2'', ''C'', ''T'', ''.'', ''.'', ''.'', ''GT'',
                 ''0/1'', ''./.'', ''0/0''] @ [newline]"


text \<open>A header whose last sample name has no underscore.\<close>

definition plain_header :: string where
  "plain_header =
     join [tab] [''#CHROM'', ''POS'', ''ID'', ''REF'', ''ALT'', ''QUAL'', ''FILTER'', ''INFO'',
                 ''FORMAT'', ''FAM07_IND03'', ''IND04''] @ [newline]"

text \<open>
  Two grouping files: one whose rows have fewer fields than the header, and one with a
  row that has more.
\<close>

definition short_groups :: "string list" where
  "short_groups = [''ID SYS1 SYS2'' @ [newline], ''A x'' @ [newline], ''B'' @ [newline]]"

definition long_groups :: "string list" where
  "long_groups = [''ID SYS1'' @ [newline], ''A x'' @ [newline], ''B y z'' @ [newline]]"


text \<open>A comment line of a variant file.\<close>

definition example_meta :: string where
  "example_meta = ''##fileformat=VCFv4.2'' @ [newline]"

text \<open>A stand-in for the interpreter's float rendering: the frequency in whole percent.\<close>

definition percent_fmt :: "rat \<Rightarrow> string" where
  "percent_fmt q = str_nat (nat \<lfloor>q * 100\<rfloor>) @ ''%''"

section \<open>Properties of the string methods\<close>

lemma split_on_nonempty: "split_on c s \<noteq> []"
  by (induction s) (auto split: list.splits)

lemma length_split_on: "length (split_on c s) = Suc (count_list s c)"
  by (induction s) (auto split: list.splits simp: split_on_nonempty)

lemma split_on_token_free: "t \<in> set (split_on c s) \<Longrightarrow> c \<notin> set t"
  by (induction s arbitrary: t) (auto split: list.splits if_splits)

lemma join_Cons: "ts \<noteq> [] \<Longrightarrow> join sep (t # ts) = t @ sep @ join sep ts"
  by (cases ts) auto

lemma join_split_on: "join [c] (split_on c s) = s"
proof (induction s)
  case Nil
  show ?case by simp
next
  case (Cons x xs)
  obtain t ts where ts: "split_on c xs = t # ts"
    using split_on_nonempty [of c xs] by (cases "split_on c xs") auto
  show ?case
  proof (cases "x = c")
    case True
    then show ?thesis using Cons by (simp add: join_Cons split_on_nonempty)
  next
    case False
    then show ?thesis using Cons ts by (cases ts) auto
  qed
qed

lemma split_on_append_sep: "c \<notin> set t \<Longrightarrow> split_on c (t @ c # s) = t # split_on c s"
  by (induction t) auto

lemma split_on_free: "c \<notin> set t \<Longrightarrow> split_on c t = [t]"
  by (induction t) auto

lemma split_on_join:
  "ts \<noteq> [] \<Longrightarrow> (\<And>t. t \<in> set ts \<Longrightarrow> c \<notin> set t) \<Longrightarrow> split_on c (join [c] ts) = ts"
proof (induction ts)
  case Nil
  then show ?case by simp
next
  case (Cons t ts)
  show ?case
  proof (cases ts)
    case Nil
    then show ?thesis using Cons.prems by (simp add: split_on_free)
  next
    case (Cons u us)
    then have "split_on c (join [c] ts) = ts" using Cons.IH Cons.prems by simp
    then show ?thesis using Cons Cons.prems by (simp add: split_on_append_sep)
  qed
qed

lemma count_list_pos: "c \<in> set s \<Longrightarrow> 0 < count_list s c"
  using count_list_0_iff [of s c] by auto

lemma startswith_iff: "startswith s p \<longleftrightarrow> (\<exists>r. s = p @ r)"
  unfolding startswith_def by (metis append_eq_conv_conj append_take_drop_id)

lemma startswith_chrom: "startswith line ''#CHROM'' \<Longrightarrow> startswith line ''#''"
  unfolding startswith_iff by auto

lemma comprehension_fails_iff:
  "(\<exists>e. comprehension f xs = Inl e) \<longleftrightarrow> (\<exists>x\<in>set xs. \<exists>e. f x = Inl e)"
  by (induction xs) (auto split: sum.splits)

lemma comprehension_map:
  "(\<And>x. x \<in> set xs \<Longrightarrow> f x = Inr (g x)) \<Longrightarrow> comprehension f xs = Inr (map g xs)"
  by (induction xs) auto

section \<open>The sample identifier resolver\<close>

lemma resolve_individual:
  "resolve_sample (use_iid_of False) name = Inr (last (split_on CHR ''_'' name))"
  by (simp add: resolve_sample_def use_iid_of_def index_from_end_def length_split_on
      last_conv_nth split_on_nonempty)

lemma resolve_family:
  assumes "CHR ''_'' \<in> set name"
  shows "resolve_sample (use_iid_of True) name = Inr (last (butlast (split_on CHR ''_'' name)))"
proof -
  let ?ts = "split_on CHR ''_'' name"
  have len: "2 \<le> length ?ts"
    using count_list_pos [OF assms] by (simp add: length_split_on)
  then have ne: "butlast ?ts \<noteq> []" by (cases ?ts rule: rev_cases) auto
  have "last (butlast ?ts) = ?ts ! (length ?ts - 2)"
    using ne len
    by (simp add: last_conv_nth nth_butlast) (metis One_nat_def Suc_1 diff_Suc_eq_diff_pred)
  then show ?thesis
    using len by (simp add: resolve_sample_def use_iid_of_def index_from_end_def)
qed

lemma resolve_family_fails:
  "CHR ''_'' \<notin> set name \<Longrightarrow> resolve_sample (use_iid_of True) name = Inl IndexError"
  by (simp add: resolve_sample_def use_iid_of_def index_from_end_def length_split_on
      count_list_0_iff)

text \<open>
  C8, as stated, fails for the family policy: a sample name without an underscore has one
  token only, and with \<open>--use-fid\<close> the resolver selects nothing and raises \<open>IndexError\<close>.
\<close>

theorem family_token_counterexample:
  "split_on CHR ''_'' ''NA12878'' = [''NA12878'']
   \<and> resolve_sample (use_iid_of False) ''NA12878'' = Inr ''NA12878''
   \<and> resolve_sample (use_iid_of True) ''NA12878'' = Inl IndexError"
  by (simp add: resolve_sample_def use_iid_of_def index_from_end_def)

text \<open>
  C8, amended. The tokens of a sample name are its maximal pieces without an underscore
  (joined by underscores they give the name back). Without \<open>--use-fid\<close> the resolver
  returns the last token, for every name. With \<open>--use-fid\<close> it returns the second-to-last
  token of every name that has an underscore, and raises \<open>IndexError\<close> for every name that
  has none, whose only token is the name itself.
\<close>

theorem resolver_selects_token:
  "join ''_'' (split_on CHR ''_'' name) = name
   \<and> (\<forall>t \<in> set (split_on CHR ''_'' name). CHR ''_'' \<notin> set t)
   \<and> resolve_sample (use_iid_of False) name = Inr (last (split_on CHR ''_'' name))
   \<and> (CHR ''_'' \<in> set name \<longrightarrow>
        resolve_sample (use_iid_of True) name = Inr (last (butlast (split_on CHR ''_'' name))))
   \<and> (CHR ''_'' \<notin> set name \<longrightarrow>
        split_on CHR ''_'' name = [name]
        \<and> resolve_sample (use_iid_of True) name = Inl IndexError)"
  using join_split_on [of "CHR ''_''" name] split_on_token_free [of _ "CHR ''_''" name]
    resolve_individual [of name] resolve_family [of name] resolve_family_fails [of name]
    split_on_free [of "CHR ''_''" name]
  by blast

theorem resolver_selects_token_witness:
  "CHR ''_'' \<in> set ''COHORT1_FAM07_IND03''
   \<and> resolve_sample (use_iid_of False) ''COHORT1_FAM07_IND03'' = Inr ''IND03''
   \<and> resolve_sample (use_iid_of True) ''COHORT1_FAM07_IND03'' = Inr ''FAM07''
   \<and> CHR ''_'' \<notin> set ''SAMPLE1''
   \<and> resolve_sample (use_iid_of False) ''SAMPLE1'' = Inr ''SAMPLE1''
   \<and> resolve_sample (use_iid_of True) ''SAMPLE1'' = Inl IndexError"
  using resolver_selects_token [of "''COHORT1_FAM07_IND03''"]
    resolver_selects_token [of "''SAMPLE1''"]
  by simp

text \<open>
  C10. With \<open>--use-fid\<close> a sample name without an underscore raises \<open>IndexError\<close>, and a
  name with one resolves; without \<open>--use-fid\<close> every name resolves. So with \<open>--use-fid\<close>
  the \<open>#CHROM\<close> line is processed without an exception exactly when every sample name on
  it has an underscore.
\<close>

theorem family_policy_needs_underscore:
  "(CHR ''_'' \<notin> set name \<longrightarrow> resolve_sample (use_iid_of True) name = Inl IndexError)
   \<and> (CHR ''_'' \<in> set name \<longrightarrow> (\<exists>key. resolve_sample (use_iid_of True) name = Inr key))
   \<and> (\<exists>key. resolve_sample (use_iid_of False) name = Inr key)
   \<and> (startswith line ''#CHROM'' \<longrightarrow>
        (fst (process_line fmt (use_iid_of True) line s) = None
         \<longleftrightarrow> (\<forall>sample_name \<in> set (drop 9 (split_on tab (rstrip line))).
                CHR ''_'' \<in> set sample_name)))"
proof -
  let ?names = "drop 9 (split_on tab (rstrip line))"
  have fails: "(\<exists>e. comprehension (resolve_sample (use_iid_of True)) ?names = Inl e)
      \<longleftrightarrow> (\<exists>n \<in> set ?names. CHR ''_'' \<notin> set n)"
    unfolding comprehension_fails_iff
    using resolve_family resolve_family_fails by (metis Inl_Inr_False)
  have "fst (process_line fmt (use_iid_of True) line s) = None
      \<longleftrightarrow> (\<forall>n \<in> set ?names. CHR ''_'' \<in> set n)" if "startswith line ''#CHROM''"
  proof (cases "comprehension (resolve_sample (use_iid_of True)) ?names")
    case (Inl e)
    then show ?thesis
      using that startswith_chrom [OF that] fails by (auto simp: process_line_def)
  next
    case (Inr names)
    then show ?thesis
      using that startswith_chrom [OF that] fails
      by (auto simp: process_line_def split: prod.splits)
  qed
  then show ?thesis
    using resolve_family [of name] resolve_family_fails [of name] resolve_individual [of name]
    by blast
qed

theorem family_policy_needs_underscore_witness:
  "CHR ''_'' \<notin> set ''IND04''
   \<and> resolve_sample (use_iid_of True) ''IND04'' = Inl IndexError
   \<and> (\<exists>key. resolve_sample (use_iid_of False) ''IND04'' = Inr key)
   \<and> startswith plain_header ''#CHROM''
   \<and> fst (process_line percent_fmt (use_iid_of True) plain_header
            \<lparr>st_grouping_info = [], st_group_sets = None, st_ofh = []\<rparr>) \<noteq> None"
proof -
  have names: "drop 9 (split_on tab (rstrip plain_header)) = [''FAM07_IND03'', ''IND04'']"
    by (simp add: plain_header_def rstrip_def isspace_def)
  have chrom: "startswith plain_header ''#CHROM''"
    by (simp add: plain_header_def startswith_def)
  show ?thesis
    using family_policy_needs_underscore [of "''IND04''" plain_header percent_fmt
        "\<lparr>st_grouping_info = [], st_group_sets = None, st_ofh = []\<rparr>"] names chrom
    by simp
qed

section \<open>The frequency aggregator\<close>

lemma update_fresh: "k \<notin> fst ` set d \<Longrightarrow> AList.update k v d = d @ [(k, v)]"
  by (induction d) auto

lemma tabulate_cong: "(\<And>g. g \<in> set ks \<Longrightarrow> f g = h g) \<Longrightarrow> tabulate ks f = tabulate ks h"
  by (simp add: tabulate_def)

lemma tabulate_keys: "map fst (tabulate ks f) = ks"
  by (simp add: tabulate_def comp_def)

lemma map_of_tabulate: "map_of (tabulate ks f) g = (if g \<in> set ks then Some (f g) else None)"
  by (induction ks) (auto simp: tabulate_def)

lemma dict_get_tabulate: "g \<in> set ks \<Longrightarrow> dict_get (tabulate ks f) g = Inr (f g)"
  by (simp add: dict_get_def map_of_tabulate)

lemma update_tabulate:
  "distinct ks \<Longrightarrow> g \<in> set ks \<Longrightarrow> AList.update g v (tabulate ks f) = tabulate ks (f(g := v))"
proof (induction ks)
  case Nil
  then show ?case by simp
next
  case (Cons k ks)
  show ?case
  proof (cases "k = g")
    case True
    then have "g \<notin> set ks" using Cons.prems by simp
    then have "tabulate ks f = tabulate ks (f(g := v))" by (intro tabulate_cong) auto
    then show ?thesis using True by (simp add: tabulate_def)
  next
    case False
    then show ?thesis using Cons by (simp add: tabulate_def)
  qed
qed

lemma init_groups:
  "distinct (pre @ ks) \<Longrightarrow>
   fold init_group ks (tabulate pre (\<lambda>_. 0), tabulate pre (\<lambda>_. 0), tabulate pre (\<lambda>_. 0))
   = (tabulate (pre @ ks) (\<lambda>_. 0), tabulate (pre @ ks) (\<lambda>_. 0), tabulate (pre @ ks) (\<lambda>_. 0))"
proof (induction ks arbitrary: pre)
  case Nil
  then show ?case by simp
next
  case (Cons k ks)
  have fresh: "k \<notin> set pre" using Cons.prems by auto
  have step: "init_group k (tabulate pre (\<lambda>_. 0), tabulate pre (\<lambda>_. 0), tabulate pre (\<lambda>_. 0))
     = (tabulate (pre @ [k]) (\<lambda>_. 0), tabulate (pre @ [k]) (\<lambda>_. 0), tabulate (pre @ [k]) (\<lambda>_. 0))"
    using fresh by (simp add: init_group_def update_fresh tabulate_def image_image)
  show ?case using Cons.IH [of "pre @ [k]"] Cons.prems by (simp add: step)
qed

lemma count_groups:
  "distinct ks \<Longrightarrow> distinct (map fst ps) \<Longrightarrow> fst ` set ps \<subseteq> set ks \<Longrightarrow>
   for_each (count_group gl i) ps (tabulate ks fs, tabulate ks fc)
   = Inr (tabulate ks (\<lambda>g. fs g + contribution count_ones gl ps i g),
          tabulate ks (\<lambda>g. fc g + contribution count_digits gl ps i g))"
proof (induction ps arbitrary: fs fc)
  case Nil
  then show ?case by (simp add: contribution_def)
next
  case (Cons p ps)
  obtain g m where p: "p = (g, m)" by (cases p)
  have g: "g \<in> set ks" and fresh: "map_of ps g = None"
    using Cons.prems p by (auto simp: map_of_eq_None_iff)
  define fs' where "fs' = fs(g := fs g + (if i \<in> m then count_ones (gl ! i) else 0))"
  define fc' where "fc' = fc(g := fc g + (if i \<in> m then count_digits (gl ! i) else 0))"
  have same: "tabulate ks (fs(g := fs g)) = tabulate ks fs" "tabulate ks (fc(g := fc g)) = tabulate ks fc"
    by simp_all
  have step: "count_group gl i p (tabulate ks fs, tabulate ks fc)
      = Inr (tabulate ks fs', tabulate ks fc')"
    using Cons.prems(1) g
    by (simp add: p count_group_def dict_get_tabulate update_tabulate fs'_def fc'_def)
  have rest: "for_each (count_group gl i) ps (tabulate ks fs', tabulate ks fc')
      = Inr (tabulate ks (\<lambda>h. fs' h + contribution count_ones gl ps i h),
             tabulate ks (\<lambda>h. fc' h + contribution count_digits gl ps i h))"
    using Cons.IH [of fs' fc'] Cons.prems by simp
  have e1: "tabulate ks (\<lambda>h. fs' h + contribution count_ones gl ps i h)
      = tabulate ks (\<lambda>h. fs h + contribution count_ones gl (p # ps) i h)"
    by (intro tabulate_cong) (simp add: contribution_def p fresh fs'_def)
  have e2: "tabulate ks (\<lambda>h. fc' h + contribution count_digits gl ps i h)
      = tabulate ks (\<lambda>h. fc h + contribution count_digits gl (p # ps) i h)"
    by (intro tabulate_cong) (simp add: contribution_def p fresh fc'_def)
  have "for_each (count_group gl i) (p # ps) (tabulate ks fs, tabulate ks fc)
      = for_each (count_group gl i) ps (tabulate ks fs', tabulate ks fc')"
    by (simp add: step)
  then show ?case by (simp only: rest e1 e2)
qed

lemma count_individuals:
  "distinct (map fst gs) \<Longrightarrow>
   for_each (count_individual gl gs) js (tabulate (map fst gs) fs, tabulate (map fst gs) fc)
   = Inr (tabulate (map fst gs) (\<lambda>g. fs g + (\<Sum>i\<leftarrow>js. contribution count_ones gl gs i g)),
          tabulate (map fst gs) (\<lambda>g. fc g + (\<Sum>i\<leftarrow>js. contribution count_digits gl gs i g)))"
proof (induction js arbitrary: fs fc)
  case Nil
  then show ?case by simp
next
  case (Cons j js)
  have step: "count_individual gl gs j (tabulate (map fst gs) fs, tabulate (map fst gs) fc)
     = Inr (tabulate (map fst gs) (\<lambda>g. fs g + contribution count_ones gl gs j g),
          tabulate (map fst gs) (\<lambda>g. fc g + contribution count_digits gl gs j g))"
    unfolding count_individual_def using Cons.prems by (intro count_groups) auto
  show ?case
    using Cons.IH [OF Cons.prems, of "\<lambda>g. fs g + contribution count_ones gl gs j g"
        "\<lambda>g. fc g + contribution count_digits gl gs j g"]
    by (simp add: step add.assoc)
qed

lemma divide_groups:
  "distinct ks \<Longrightarrow> set js \<subseteq> set ks \<Longrightarrow>
   for_each (divide_group (tabulate ks fs) (tabulate ks fc)) js (tabulate ks fq)
   = (if \<exists>g\<in>set js. fc g = 0 then Inl ZeroDivisionError
      else Inr (tabulate ks (\<lambda>g. if g \<in> set js then of_nat (fs g) / of_nat (fc g) else fq g)))"
proof (induction js arbitrary: fq)
  case Nil
  then show ?case by simp
next
  case (Cons j js)
  have j: "j \<in> set ks" using Cons.prems by simp
  show ?case
  proof (cases "fc j = 0")
    case True
    then show ?thesis using j by (simp add: divide_group_def dict_get_tabulate)
  next
    case False
    define fq' where "fq' = fq(j := of_nat (fs j) / of_nat (fc j))"
    have step: "divide_group (tabulate ks fs) (tabulate ks fc) j (tabulate ks fq)
       = Inr (tabulate ks fq')"
      using False j Cons.prems(1)
      by (simp add: divide_group_def dict_get_tabulate update_tabulate fq'_def)
    have e: "tabulate ks (\<lambda>g. if g \<in> set js then of_nat (fs g) / of_nat (fc g) else fq' g)
        = tabulate ks (\<lambda>g. if g \<in> set (j # js) then of_nat (fs g) / of_nat (fc g) else fq g)"
      by (intro tabulate_cong) (auto simp: fq'_def)
    have "for_each (divide_group (tabulate ks fs) (tabulate ks fc)) (j # js) (tabulate ks fq)
        = for_each (divide_group (tabulate ks fs) (tabulate ks fc)) js (tabulate ks fq')"
      by (simp add: step)
    also have "\<dots> = (if \<exists>g\<in>set js. fc g = 0 then Inl ZeroDivisionError
        else Inr (tabulate ks (\<lambda>g. if g \<in> set js then of_nat (fs g) / of_nat (fc g) else fq' g)))"
      using Cons.IH [of fq'] Cons.prems by simp
    finally show ?thesis using False by (simp only: e) simp
  qed
qed

lemma sum_list_nths:
  "sum_list (map f (nths xs A)) = (\<Sum>i\<leftarrow>[0..<length xs]. if i \<in> A then f (xs ! i) else (0::nat))"
proof (induction xs rule: rev_induct)
  case Nil
  then show ?case by simp
next
  case (snoc x xs)
  have "(\<Sum>i\<leftarrow>[0..<length xs]. if i \<in> A then f ((xs @ [x]) ! i) else 0)
      = (\<Sum>i\<leftarrow>[0..<length xs]. if i \<in> A then f (xs ! i) else 0)"
    by (intro arg_cong [where f = sum_list] map_cong) (auto simp: nth_append)
  then show ?case using snoc by (simp add: nths_append)
qed

lemma count_ones_concat: "count_list (concat xss) CHR ''1'' = sum_list (map count_ones xss)"
  by (induction xss) (auto simp: count_ones_def)

lemma count_digits_concat:
  "length (filter isdigit (concat xss)) = sum_list (map count_digits xss)"
  by (induction xss) (auto simp: count_digits_def)

lemma contribution_member:
  "distinct (map fst gs) \<Longrightarrow> (g, m) \<in> set gs \<Longrightarrow>
   contribution weight gl gs i g = (if i \<in> m then weight (gl ! i) else 0)"
  by (simp add: contribution_def)

lemma hits_contribution:
  "distinct (map fst gs) \<Longrightarrow> (g, m) \<in> set gs \<Longrightarrow>
   (\<Sum>i\<leftarrow>[0..<length gl]. contribution count_ones gl gs i g) = allele_hits gl m"
  by (simp add: contribution_member allele_hits_def group_fields_def count_ones_concat
      sum_list_nths)

lemma total_contribution:
  "distinct (map fst gs) \<Longrightarrow> (g, m) \<in> set gs \<Longrightarrow>
   (\<Sum>i\<leftarrow>[0..<length gl]. contribution count_digits gl gs i g) = digit_total gl m"
  by (simp add: contribution_member digit_total_def group_fields_def count_digits_concat
      sum_list_nths)

lemma tabulate_pairs:
  "(\<And>g m. (g, m) \<in> set gs \<Longrightarrow> f g = h m) \<Longrightarrow>
   tabulate (map fst gs) f = map (\<lambda>(g, m). (g, h m)) gs"
  by (induction gs) (auto simp: tabulate_def)

lemma count_calls_tabulate:
  assumes "distinct (map fst gs)"
  shows "count_calls gl gs =
    Inr (tabulate (map fst gs) (\<lambda>g. \<Sum>i\<leftarrow>[0..<length gl]. contribution count_ones gl gs i g),
         tabulate (map fst gs) (\<lambda>g. \<Sum>i\<leftarrow>[0..<length gl]. contribution count_digits gl gs i g),
         tabulate (map fst gs) (\<lambda>_. 0))"
proof -
  let ?ks = "map fst gs"
  have init: "fold init_group ?ks ([], [], [])
      = (tabulate ?ks (\<lambda>_. 0), tabulate ?ks (\<lambda>_. 0), tabulate ?ks (\<lambda>_. 0))"
    using init_groups [of "[]" ?ks] assms by (simp add: tabulate_def)
  have loop: "for_each (count_individual gl gs) [0..<length gl]
        (tabulate ?ks (\<lambda>_. 0), tabulate ?ks (\<lambda>_. 0))
      = Inr (tabulate ?ks (\<lambda>g. \<Sum>i\<leftarrow>[0..<length gl]. contribution count_ones gl gs i g),
             tabulate ?ks (\<lambda>g. \<Sum>i\<leftarrow>[0..<length gl]. contribution count_digits gl gs i g))"
    using count_individuals [OF assms, of gl "[0..<length gl]" "\<lambda>_. 0" "\<lambda>_. 0"] by simp
  show ?thesis
    unfolding count_calls_def init by (simp only: prod.case loop sum.case)
qed

lemma count_calls_closed:
  assumes "distinct (map fst gs)"
  shows "count_calls gl gs =
    Inr (map (\<lambda>(g, m). (g, allele_hits gl m)) gs, map (\<lambda>(g, m). (g, digit_total gl m)) gs,
         map (\<lambda>(g, m). (g, 0)) gs)"
proof -
  have "tabulate (map fst gs) (\<lambda>g. \<Sum>i\<leftarrow>[0..<length gl]. contribution count_ones gl gs i g)
      = map (\<lambda>(g, m). (g, allele_hits gl m)) gs"
    using assms by (intro tabulate_pairs) (simp add: hits_contribution)
  moreover have "tabulate (map fst gs) (\<lambda>g. \<Sum>i\<leftarrow>[0..<length gl]. contribution count_digits gl gs i g)
      = map (\<lambda>(g, m). (g, digit_total gl m)) gs"
    using assms by (intro tabulate_pairs) (simp add: total_contribution)
  moreover have "tabulate (map fst gs) (\<lambda>_. 0::rat) = map (\<lambda>(g, m). (g, 0)) gs"
    by (intro tabulate_pairs) simp
  ultimately show ?thesis
    using count_calls_tabulate [OF assms, of gl] by simp
qed

lemma get_frequencies_closed:
  assumes "distinct (map fst gs)"
  shows "get_frequencies gl gs =
    (if \<exists>(g, m) \<in> set gs. digit_total gl m = 0 then Inl ZeroDivisionError
     else Inr (map (\<lambda>(g, m). (g, of_nat (allele_hits gl m) / of_nat (digit_total gl m))) gs,
               map (\<lambda>(g, m). (g, digit_total gl m)) gs))"
proof -
  let ?ks = "map fst gs"
  let ?fs = "\<lambda>g. (\<Sum>i\<leftarrow>[0..<length gl]. contribution count_ones gl gs i g)"
  let ?fc = "\<lambda>g. (\<Sum>i\<leftarrow>[0..<length gl]. contribution count_digits gl gs i g)"
  have div: "for_each (divide_group (tabulate ?ks ?fs) (tabulate ?ks ?fc)) ?ks
        (tabulate ?ks (\<lambda>_. 0))
      = (if \<exists>g\<in>set ?ks. ?fc g = 0 then Inl ZeroDivisionError
         else Inr (tabulate ?ks
                (\<lambda>g. if g \<in> set ?ks then of_nat (?fs g) / of_nat (?fc g) else 0)))"
    using assms by (intro divide_groups) auto
  have zero: "(\<exists>g\<in>set ?ks. ?fc g = 0) \<longleftrightarrow> (\<exists>(g, m) \<in> set gs. digit_total gl m = 0)"
  proof
    assume "\<exists>g\<in>set ?ks. ?fc g = 0"
    then obtain g m where "(g, m) \<in> set gs" "?fc g = 0" by auto
    then show "\<exists>(g, m) \<in> set gs. digit_total gl m = 0"
      using total_contribution [OF assms, of g m gl] by auto
  next
    assume "\<exists>(g, m) \<in> set gs. digit_total gl m = 0"
    then obtain g m where gm: "(g, m) \<in> set gs" "digit_total gl m = 0" by auto
    then have "?fc g = 0" using total_contribution [OF assms, of g m gl] by simp
    moreover have "g \<in> set ?ks" using gm(1) by force
    ultimately show "\<exists>g\<in>set ?ks. ?fc g = 0" by blast
  qed
  have frqs: "tabulate ?ks (\<lambda>g. if g \<in> set ?ks then of_nat (?fs g) / of_nat (?fc g) else (0::rat))
      = map (\<lambda>(g, m). (g, of_nat (allele_hits gl m) / of_nat (digit_total gl m))) gs"
    using assms
    by (intro tabulate_pairs) (auto simp: hits_contribution total_contribution rev_image_eqI)
  have counts: "tabulate ?ks ?fc = map (\<lambda>(g, m). (g, digit_total gl m)) gs"
    using assms by (intro tabulate_pairs) (simp add: total_contribution)
  have "get_frequencies gl gs =
      (case (if \<exists>g\<in>set ?ks. ?fc g = 0 then Inl ZeroDivisionError
             else Inr (tabulate ?ks
                    (\<lambda>g. if g \<in> set ?ks then of_nat (?fs g) / of_nat (?fc g) else 0)))
       of Inl e \<Rightarrow> Inl e | Inr frqs \<Rightarrow> Inr (frqs, tabulate ?ks ?fc))"
    unfolding get_frequencies_def count_calls_tabulate [OF assms]
    by (simp only: prod.case sum.case div)
  then show ?thesis unfolding zero frqs counts by simp
qed

lemma map_of_pairs:
  "distinct (map fst gs) \<Longrightarrow> (g, m) \<in> set gs \<Longrightarrow>
   map_of (map (\<lambda>(g, m). (g, f m)) gs) g = Some (f m)"
  by (induction gs) (auto simp: rev_image_eqI)

lemma hits_le_total: "allele_hits gl m \<le> digit_total gl m"
proof -
  have "count_list s CHR ''1'' \<le> length (filter isdigit s)" for s
    by (induction s) (auto simp: isdigit_def)
  then show ?thesis by (simp add: allele_hits_def digit_total_def)
qed

lemma example_totals:
  "allele_hits example_genotypes {0, 2} = 1" "digit_total example_genotypes {0, 2} = 4"
  "allele_hits example_genotypes {Suc 0} = 2" "digit_total example_genotypes {Suc 0} = 2"
  by (simp_all add: allele_hits_def digit_total_def group_fields_def example_genotypes_def
      nths_Cons isdigit_def)

lemma example_frequencies:
  "get_frequencies example_genotypes example_index
   = Inr ([(''x'', 1 / 4), (''y'', 1)], [(''x'', 4), (''y'', 2)])"
  by (simp add: get_frequencies_closed example_index_def example_totals)










text \<open>
  C7. For every group, the number of characters \<open>1\<close> tallied never exceeds the number of
  digits tallied (both are natural numbers), so the quotient lies between 0 and 1 when
  the number of digits is positive; every frequency that \<open>get_frequencies\<close> returns lies
  between 0 and 1.
\<close>

theorem frequency_in_unit_interval:
  assumes "distinct (map fst group_index_list)"
    and "(group_name, members) \<in> set group_index_list"
  shows "(\<exists>sums' counts frqs0 s c.
           count_calls genotype_list group_index_list = Inr (sums', counts, frqs0)
           \<and> map_of sums' group_name = Some s \<and> map_of counts group_name = Some c \<and> s \<le> c
           \<and> (0 < c \<longrightarrow> 0 \<le> (of_nat s / of_nat c :: rat) \<and> (of_nat s / of_nat c :: rat) \<le> 1))
       \<and> (\<forall>frqs counts.
             get_frequencies genotype_list group_index_list = Inr (frqs, counts) \<longrightarrow>
             (\<exists>f. map_of frqs group_name = Some f \<and> 0 \<le> f \<and> f \<le> 1))"
proof -
  let ?gs = group_index_list and ?gl = genotype_list
  have le: "allele_hits ?gl members \<le> digit_total ?gl members" by (rule hits_le_total)
  have q: "0 \<le> (of_nat (allele_hits ?gl members) / of_nat (digit_total ?gl members) :: rat)
        \<and> (of_nat (allele_hits ?gl members) / of_nat (digit_total ?gl members) :: rat) \<le> 1"
    if "0 < digit_total ?gl members"
    using that le by (simp add: divide_le_eq)
  have "\<forall>frqs counts. get_frequencies ?gl ?gs = Inr (frqs, counts) \<longrightarrow>
             (\<exists>f. map_of frqs group_name = Some f \<and> 0 \<le> f \<and> f \<le> 1)"
    using assms(2) q
      map_of_pairs [OF assms,
        of "\<lambda>m. of_nat (allele_hits ?gl m) / of_nat (digit_total ?gl m) :: rat"]
    by (auto simp: get_frequencies_closed [OF assms(1)] split: if_splits)
  then show ?thesis
    using count_calls_closed [OF assms(1), of ?gl] map_of_pairs [OF assms, of "allele_hits ?gl"]
      map_of_pairs [OF assms, of "digit_total ?gl"] le q
    by simp
qed

theorem frequency_in_unit_interval_witness:
  "distinct (map fst example_index) \<and> (''y'', {1}) \<in> set example_index
   \<and> (\<exists>frqs counts f. get_frequencies example_genotypes example_index = Inr (frqs, counts)
         \<and> map_of frqs ''y'' = Some f \<and> 0 \<le> f \<and> f \<le> 1)"
proof -
  have d: "distinct (map fst example_index)" and y: "(''y'', {1}) \<in> set example_index"
    by (simp_all add: example_index_def)
  have "\<exists>f. map_of [(''x'', 1 / 4), (''y'', 1 :: rat)] ''y'' = Some f \<and> 0 \<le> f \<and> f \<le> 1"
    using frequency_in_unit_interval [OF d y, of example_genotypes] example_frequencies
    by blast
  then show ?thesis using d y example_frequencies by blast
qed

section \<open>The run on the example\<close>

lemma example_groupings:
  "\<exists>systems. get_groupings example_groups = Inr (example_table, systems)"
  by (simp add: example_groups_def example_table_def get_groupings_def add_row_def
      add_grouping_def rstrip_def isspace_def split_ws_def header_names_of_def header_name_def
      defaultdict_touch_def defaultdict_get_def Let_def)

lemma example_header_line:
  "process_line fmt (use_iid_of False) example_header
     \<lparr>st_grouping_info = example_table, st_group_sets = None, st_ofh = []\<rparr>
   = (None, \<lparr>st_grouping_info = example_table, st_group_sets = Some example_index,
             st_ofh = example_header_text\<rparr>)"
  by (simp add: process_line_def example_header_def example_table_def example_index_def
      example_header_text_def startswith_def rstrip_def isspace_def
      resolve_sample_def use_iid_of_def index_from_end_def build_group_sets_def
      add_individual_def add_member_def defaultdict_touch_def defaultdict_get_def Let_def
      header_columns_def insert_commute eval_nat_numeral)

lemma missing_variant_fields:
  "take 5 (split_on tab (rstrip missing_variant)) = [''1'', ''200'', ''rs2'', ''C'', ''T'']"
  "drop 9 (split_on tab (rstrip missing_variant)) = [''0/1'', ''./.'', ''0/0'']"
  "\<not> startswith missing_variant ''#''"
  by (simp_all add: missing_variant_def rstrip_def isspace_def startswith_def)

lemma example_variant_fields:
  "take 5 (split_on tab (rstrip example_variant)) = [''1'', ''100'', ''rs1'', ''A'', ''G'']"
  "drop 9 (split_on tab (rstrip example_variant)) = example_genotypes"
  "\<not> startswith example_variant ''#''"
  by (simp_all add: example_variant_def example_genotypes_def rstrip_def isspace_def startswith_def)

lemma missing_total: "digit_total [''0/1'', ''./.'', ''0/0''] {1} = 0"
  by (simp add: digit_total_def group_fields_def nths_Cons isdigit_def)

lemma missing_frequencies:
  "get_frequencies [''0/1'', ''./.'', ''0/0''] example_index = Inl ZeroDivisionError"
  using missing_total by (simp add: get_frequencies_closed example_index_def)

text \<open>
  C1, as stated, fails: on the example with a variant whose group \<open>y\<close> has no digit, the
  run ends with \<open>ZeroDivisionError\<close>; the output holds the header and the five fixed
  columns of that row, without any per-group value and without the newline, and the
  variant after it is never processed.
\<close>

theorem sentinel_counterexample:
  "main percent_fmt False example_groups [example_header, missing_variant, example_variant]
   = (Some ZeroDivisionError, example_header_text @ join [tab] [''1'', ''200'', ''rs2'', ''C'', ''T''])"
proof -
  obtain systems where g: "get_groupings example_groups = Inr (example_table, systems)"
    using example_groupings by blast
  have row: "process_line percent_fmt (use_iid_of False) missing_variant
       \<lparr>st_grouping_info = example_table, st_group_sets = Some example_index,
        st_ofh = example_header_text\<rparr>
     = (Some ZeroDivisionError,
        \<lparr>st_grouping_info = example_table, st_group_sets = Some example_index,
         st_ofh = example_header_text @ join [tab] [''1'', ''200'', ''rs2'', ''C'', ''T'']\<rparr>)"
    by (simp add: process_line_def missing_variant_fields missing_frequencies Let_def)
  show ?thesis
    by (simp add: main_def g example_header_line row)
qed

text \<open>
  C1, amended. When, on a data line, the genotype fields of some group have no character
  that \<open>str.isdigit\<close> accepts (\<open>digit_total = 0\<close>, the total that the script computes),
  \<open>get_frequencies\<close> raises \<open>ZeroDivisionError\<close> and returns no frequency for any group;
  the five fixed columns of the row have been written, nothing else of the row is, and the
  loop over the lines ends with that exception whatever lines follow.
\<close>

theorem zero_total_aborts_run:
  assumes "st_group_sets s = Some group_sets"
    and "distinct (map fst group_sets)"
    and "\<not> startswith line ''#''"
    and "(group_name, members) \<in> set group_sets"
    and "digit_total (drop 9 (split_on tab (rstrip line))) members = 0"
  shows "get_frequencies (drop 9 (split_on tab (rstrip line))) group_sets = Inl ZeroDivisionError
     \<and> run_loop (process_line fmt use_iid) (line # later_lines) s
         = (Some ZeroDivisionError,
            s\<lparr>st_ofh := st_ofh s @ join [tab] (take 5 (split_on tab (rstrip line)))\<rparr>)"
proof -
  have z: "get_frequencies (drop 9 (split_on tab (rstrip line))) group_sets = Inl ZeroDivisionError"
    using assms(4,5) by (auto simp: get_frequencies_closed [OF assms(2)])
  have "process_line fmt use_iid line s
      = (Some ZeroDivisionError,
         s\<lparr>st_ofh := st_ofh s @ join [tab] (take 5 (split_on tab (rstrip line)))\<rparr>)"
    using assms(1,3) z by (simp add: process_line_def Let_def)
  then show ?thesis using z by simp
qed

theorem zero_total_aborts_run_witness:
  "st_group_sets \<lparr>st_grouping_info = example_table, st_group_sets = Some example_index,
                  st_ofh = example_header_text\<rparr> = Some example_index
   \<and> distinct (map fst example_index) \<and> \<not> startswith missing_variant ''#''
   \<and> (''y'', {1}) \<in> set example_index
   \<and> digit_total (drop 9 (split_on tab (rstrip missing_variant))) {1} = 0
   \<and> run_loop (process_line percent_fmt (use_iid_of False)) [missing_variant, example_variant]
        \<lparr>st_grouping_info = example_table, st_group_sets = Some example_index,
         st_ofh = example_header_text\<rparr>
      = (Some ZeroDivisionError,
         \<lparr>st_grouping_info = example_table, st_group_sets = Some example_index,
          st_ofh = example_header_text @ join [tab] [''1'', ''200'', ''rs2'', ''C'', ''T'']\<rparr>)"
proof -
  let ?s = "\<lparr>st_grouping_info = example_table, st_group_sets = Some example_index,
             st_ofh = example_header_text\<rparr>"
  have a: "st_group_sets ?s = Some example_index" by simp
  have d: "distinct (map fst example_index)" and y: "(''y'', {1}) \<in> set example_index"
    by (simp_all add: example_index_def)
  have z: "digit_total (drop 9 (split_on tab (rstrip missing_variant))) {1} = 0"
    unfolding missing_variant_fields by (rule missing_total)
  show ?thesis
    using zero_total_aborts_run [OF a d missing_variant_fields(3) y z,
        of percent_fmt "use_iid_of False" "[example_variant]"] d y z
    by (simp add: missing_variant_fields)
qed

section \<open>The group index builder\<close>

lemma defaultdict_get_touch:
  "defaultdict_get dflt (defaultdict_touch dflt d k) k' = defaultdict_get dflt d k'"
  by (auto simp: defaultdict_get_def defaultdict_touch_def split: option.splits if_splits)

lemma update_touch:
  "AList.update k v (defaultdict_touch dflt d k) = AList.update k v d"
  by (induction d) (auto simp: defaultdict_touch_def split: option.splits if_splits)

lemma add_member_eq:
  "add_member i l gs = AList.update l (insert i (defaultdict_get {} gs l)) gs"
  by (simp add: add_member_def Let_def defaultdict_get_touch update_touch)

lemma add_member_keys:
  "map fst (add_member i l gs) = (if l \<in> set (map fst gs) then map fst gs else map fst gs @ [l])"
  by (simp add: add_member_eq update_keys)

lemma add_member_get:
  "defaultdict_get {} (add_member i l gs) l' =
     (if l' = l then insert i (defaultdict_get {} gs l) else defaultdict_get {} gs l')"
  by (simp add: add_member_eq defaultdict_get_def update_conv')

lemma fold_add_member_pairs:
  "fold (add_member i) ls gs = fold (\<lambda>(j, l). add_member j l) (map (\<lambda>l. (i, l)) ls) gs"
  by (induction ls arbitrary: gs) auto

lemma build_fold:
  "(\<And>k. defaultdict_get [] gi' k = defaultdict_get [] gi k) \<Longrightarrow>
   snd (fold (add_individual names) positions (gi', gs))
   = fold (\<lambda>(j, l). add_member j l) (memberships gi names positions) gs"
proof (induction positions arbitrary: gi' gs)
  case Nil
  then show ?case by (simp add: memberships_def)
next
  case (Cons i positions)
  let ?gi = "defaultdict_touch [] gi' (names ! i)"
  have step: "add_individual names i (gi', gs)
      = (?gi, fold (add_member i) (labels_of gi (names ! i)) gs)"
    using Cons.prems by (simp add: add_individual_def Let_def labels_of_def defaultdict_get_touch)
  have inv: "\<And>k. defaultdict_get [] ?gi k = defaultdict_get [] gi k"
    using Cons.prems by (simp add: defaultdict_get_touch)
  show ?case
    using Cons.IH [OF inv, of "fold (add_member i) (labels_of gi (names ! i)) gs"]
    by (simp add: step memberships_def fold_add_member_pairs)
qed

lemma build_group_sets_fold:
  "snd (build_group_sets gi names)
   = fold (\<lambda>(j, l). add_member j l) (memberships gi names [0..<length names]) []"
  unfolding build_group_sets_def by (rule build_fold) simp

lemma first_seen_set: "set (first_seen_order xs) = set xs"
  by (induction xs) auto

lemma first_seen_distinct: "distinct (first_seen_order xs)"
  by (induction xs) (auto simp: first_seen_set)

lemma fold_members_keys:
  "map fst (fold (\<lambda>(j, l). add_member j l) ps gs)
   = map fst gs @ filter (\<lambda>l. l \<notin> set (map fst gs)) (first_seen_order (map snd ps))"
proof (induction ps arbitrary: gs)
  case Nil
  then show ?case by simp
next
  case (Cons p ps)
  obtain j l where p: "p = (j, l)" by (cases p)
  show ?case
  proof (cases "l \<in> set (map fst gs)")
    case True
    have "filter (\<lambda>y. y \<notin> set (map fst gs)) (filter (\<lambda>y. y \<noteq> l) (first_seen_order (map snd ps)))
        = filter (\<lambda>y. y \<notin> set (map fst gs)) (first_seen_order (map snd ps))"
      using True by (auto simp: filter_filter intro!: filter_cong)
    then show ?thesis using True Cons.IH [of "add_member j l gs"]
      by (simp add: p add_member_keys)
  next
    case False
    have "filter (\<lambda>y. y \<notin> set (map fst gs @ [l])) (first_seen_order (map snd ps))
        = filter (\<lambda>y. y \<notin> set (map fst gs)) (filter (\<lambda>y. y \<noteq> l) (first_seen_order (map snd ps)))"
      by (auto simp: filter_filter intro!: filter_cong)
    then show ?thesis using False Cons.IH [of "add_member j l gs"]
      by (simp add: p add_member_keys)
  qed
qed

lemma fold_members_get:
  "defaultdict_get {} (fold (\<lambda>(j, l). add_member j l) ps gs) label
   = defaultdict_get {} gs label \<union> {j. (j, label) \<in> set ps}"
proof (induction ps arbitrary: gs)
  case Nil
  then show ?case by simp
next
  case (Cons p ps)
  obtain j l where p: "p = (j, l)" by (cases p)
  show ?case using Cons.IH [of "add_member j l gs"]
    by (auto simp: p add_member_get)
qed

lemma memberships_iff:
  "(i, label) \<in> set (memberships gi names positions)
   \<longleftrightarrow> i \<in> set positions \<and> label \<in> set (labels_of gi (names ! i))"
  by (auto simp: memberships_def)

lemma group_sets_keys:
  "map fst (snd (build_group_sets gi names))
   = first_seen_order (map snd (memberships gi names [0..<length names]))"
  by (simp add: build_group_sets_fold fold_members_keys)

lemma group_sets_distinct: "distinct (map fst (snd (build_group_sets gi names)))"
  by (simp add: group_sets_keys first_seen_distinct)

lemma group_sets_get:
  "defaultdict_get {} (snd (build_group_sets gi names)) label
   = {i. i < length names \<and> label \<in> set (labels_of gi (names ! i))}"
proof -
  have "defaultdict_get {} ([] :: group_sets) label = {}" by (simp add: defaultdict_get_def)
  then show ?thesis
    by (simp add: build_group_sets_fold fold_members_get memberships_iff)
qed

lemma dict_member_get:
  "distinct (map fst d) \<Longrightarrow> (k, v) \<in> set d \<Longrightarrow> defaultdict_get dflt d k = v"
  by (simp add: defaultdict_get_def)

text \<open>
  C5. The keys of the group index are distinct. The set stored under a label is exactly
  the set of the column positions whose sample is given that label by the grouping table
  under some grouping system (\<^const>\<open>labels_of\<close> collects the labels of all systems, so
  equal labels of different systems share one set); and every position of a sample with
  that label is in the set stored under the label.
\<close>

theorem group_index_membership:
  "distinct (map fst (snd (build_group_sets grouping_info sample_names)))
   \<and> (\<forall>label members. (label, members) \<in> set (snd (build_group_sets grouping_info sample_names)) \<longrightarrow>
         members = {i. i < length sample_names
                       \<and> label \<in> set (labels_of grouping_info (sample_names ! i))})
   \<and> (\<forall>i label. i < length sample_names
           \<and> label \<in> set (labels_of grouping_info (sample_names ! i)) \<longrightarrow>
         (\<exists>members. (label, members) \<in> set (snd (build_group_sets grouping_info sample_names))
            \<and> i \<in> members))"
proof -
  let ?gs = "snd (build_group_sets grouping_info sample_names)"
  have d: "distinct (map fst ?gs)" by (rule group_sets_distinct)
  have a: "members = {i. i < length sample_names
                       \<and> label \<in> set (labels_of grouping_info (sample_names ! i))}"
    if "(label, members) \<in> set ?gs" for label members
    using dict_member_get [OF d that, of "{}"] group_sets_get [of grouping_info sample_names label]
    by simp
  have b: "\<exists>members. (label, members) \<in> set ?gs \<and> i \<in> members"
    if "i < length sample_names" "label \<in> set (labels_of grouping_info (sample_names ! i))"
    for i label
  proof -
    have "(i, label) \<in> set (memberships grouping_info sample_names [0..<length sample_names])"
      using that by (simp add: memberships_iff)
    then have "label \<in> set (map fst ?gs)"
      unfolding group_sets_keys first_seen_set by force
    then obtain members where m: "(label, members) \<in> set ?gs" by auto
    then show ?thesis using a [OF m] that by blast
  qed
  show ?thesis using d a b by blast
qed

theorem group_index_membership_witness:
  "2 < length [''A'', ''B'', ''C'']
   \<and> ''x'' \<in> set (labels_of example_table ([''A'', ''B'', ''C''] ! 2))
   \<and> (\<exists>members. (''x'', members) \<in> set (snd (build_group_sets example_table [''A'', ''B'', ''C'']))
         \<and> 2 \<in> members \<and> 1 \<notin> members)"
proof -
  let ?names = "[''A'', ''B'', ''C'']"
  let ?gs = "snd (build_group_sets example_table ?names)"
  have len: "(2::nat) < length ?names" by simp
  have l: "''x'' \<in> set (labels_of example_table (?names ! 2))"
    by (simp add: labels_of_def example_table_def defaultdict_get_def)
  have n: "''x'' \<notin> set (labels_of example_table (?names ! 1))"
    by (simp add: labels_of_def example_table_def defaultdict_get_def)
  note gim = group_index_membership [of example_table ?names]
  from gim have all: "\<forall>i label. i < length ?names
           \<and> label \<in> set (labels_of example_table (?names ! i)) \<longrightarrow>
         (\<exists>members. (label, members) \<in> set ?gs \<and> i \<in> members)"
    by (elim conjE)
  from gim have eq: "\<forall>label members. (label, members) \<in> set ?gs \<longrightarrow>
         members = {i. i < length ?names \<and> label \<in> set (labels_of example_table (?names ! i))}"
    by (elim conjE)
  from all len l obtain members where m: "(''x'', members) \<in> set ?gs" "2 \<in> members"
    by blast
  from eq m(1) have "members = {i. i < length ?names
                       \<and> ''x'' \<in> set (labels_of example_table (?names ! i))}" by blast
  then have "1 \<notin> members" using n by blast
  then show ?thesis using len l m by blast
qed

section \<open>Samples that the grouping file does not have\<close>

lemma header_line:
  assumes "startswith line ''#CHROM''"
    and "comprehension (resolve_sample use_iid) (drop 9 (split_on tab (rstrip line)))
         = Inr sample_names"
    and "build_group_sets (st_grouping_info s) sample_names = (gi, gs)"
  shows "process_line fmt use_iid line s
    = (None, s\<lparr>st_grouping_info := gi, st_group_sets := Some gs,
                 st_ofh := st_ofh s @ ''Chr'' @ [tab] @ ''Position'' @ [tab] @ ''rsID''
                           @ [tab] @ ''Ref'' @ [tab] @ ''Alt''
                           @ header_columns gs @ [newline]\<rparr>)"
proof -
  have h: "startswith line ''#''" by (rule startswith_chrom [OF assms(1)])
  show ?thesis
    unfolding process_line_def assms(2)
    by (simp only: h assms not_True_eq_False if_False if_True sum.case prod.case)
qed









lemma percent_half: "percent_fmt (1 / 2) = ''50%''" "percent_fmt 1 = ''100%''"
  "str_nat 2 = ''2''"
  by (simp_all add: percent_fmt_def str_nat.simps)


section \<open>Loading the grouping file\<close>

lemma for_each_succeeds:
  "(\<And>x s. x \<in> set xs \<Longrightarrow> \<exists>s'. body x s = Inr s') \<Longrightarrow> \<exists>s'. for_each body xs s = Inr s'"
proof (induction xs arbitrary: s)
  case Nil
  then show ?case by simp
next
  case (Cons x xs)
  obtain s1 where s1: "body x s = Inr s1" using Cons.prems [of x s] by auto
  show ?case using Cons.IH [of s1] Cons.prems by (simp add: s1)
qed

lemma for_each_fails:
  assumes "\<And>x s. x \<in> set xs \<Longrightarrow> (\<exists>s'. body x s = Inr s') \<or> body x s = Inl e"
    and "\<exists>x \<in> set xs. \<forall>s. body x s = Inl e"
  shows "for_each body xs s = Inl e"
  using assms
proof (induction xs arbitrary: s)
  case Nil
  then show ?case by simp
next
  case (Cons x xs)
  show ?case
  proof (cases "body x s")
    case (Inl e')
    then show ?thesis using Cons.prems(1) [of x s] by simp
  next
    case (Inr s1)
    then have "\<exists>y \<in> set xs. \<forall>s. body y s = Inl e" using Cons.prems(2) by auto
    then have "for_each body xs s1 = Inl e" using Cons.IH Cons.prems(1) by simp
    then show ?thesis using Inr by simp
  qed
qed

lemma fold_names:
  "fold (\<lambda>i names. names(i \<mapsto> f i)) [a ..< b] m k
   = (if a \<le> k \<and> k < b then Some (f k) else m k)"
proof (induction b)
  case 0
  then show ?case by simp
next
  case (Suc b)
  then show ?case by (cases "a \<le> b") auto
qed

lemma header_names_of_eq:
  "header_names_of header_fields i
   = (if i < length (drop 1 header_fields) then Some (header_fields ! (i + 1)) else None)"
  unfolding header_names_of_def fold_names by simp

lemma add_grouping_ok:
  "i < length (drop 1 header_fields) \<Longrightarrow>
   \<exists>st'. add_grouping (header_names_of header_fields) row_fields i st = Inr st'"
  by (cases st) (simp add: add_grouping_def header_name_def header_names_of_eq Let_def)

lemma add_grouping_fails:
  "\<not> i < length (drop 1 header_fields) \<Longrightarrow>
   add_grouping (header_names_of header_fields) row_fields i st = Inl (KeyError (IntKey i))"
  by (cases st) (simp add: add_grouping_def header_name_def header_names_of_eq Let_def)

lemma for_each_first_failure:
  assumes "\<And>x s. x \<in> set xs \<Longrightarrow> \<exists>s'. body x s = Inr s'"
    and "\<And>s. body y s = Inl e"
  shows "for_each body (xs @ y # ys) s = Inl e"
  using assms(1)
proof (induction xs arbitrary: s)
  case Nil
  then show ?case by (simp add: assms(2))
next
  case (Cons x xs)
  obtain s1 where s1: "body x s = Inr s1" using Cons.prems [of x s] by auto
  show ?case using Cons.IH [of s1] Cons.prems by (simp add: s1)
qed

lemma add_row_ok:
  assumes "length (drop 1 (split_ws (rstrip line))) \<le> length (drop 1 header_fields)"
  shows "\<exists>st'. add_row (header_names_of header_fields) line st = Inr st'"
  unfolding add_row_def Let_def
  using assms by (intro for_each_succeeds add_grouping_ok) simp

lemma add_row_fails:
  assumes "length (drop 1 header_fields) < length (drop 1 (split_ws (rstrip line)))"
  shows "add_row (header_names_of header_fields) line st
         = Inl (KeyError (IntKey (length (drop 1 header_fields))))"
proof -
  let ?n = "length (drop 1 header_fields)" and ?m = "length (drop 1 (split_ws (rstrip line)))"
  have "[0 ..< ?m] = [0 ..< ?n] @ ?n # [Suc ?n ..< ?m]"
    using assms by (metis less_imp_le_nat upt_add_eq_append upt_conv_Cons le_add_diff_inverse zero_le plus_nat.add_0)
  then show ?thesis
    unfolding add_row_def Let_def
    by (simp only:) (intro for_each_first_failure add_grouping_ok add_grouping_fails, simp_all)
qed

lemma add_grouping_stores:
  assumes "i < length (drop 1 header_fields)"
  shows "\<exists>gh'. add_grouping (header_names_of header_fields) row_fields i (gd, gh)
     = Inr (store_label (row_fields ! 0, header_fields ! (i + 1), row_fields ! (i + 1)) gd, gh')"
  using assms
  by (simp add: add_grouping_def header_name_def header_names_of_eq Let_def store_label_def
      defaultdict_get_touch update_touch)

lemma for_each_fold:
  assumes "\<And>x gd gh. x \<in> set xs \<Longrightarrow> \<exists>gh'. body x (gd, gh) = Inr (f x gd, gh')"
  shows "\<exists>gh'. for_each body xs (gd, gh) = Inr (fold f xs gd, gh')"
  using assms
proof (induction xs arbitrary: gd gh)
  case Nil
  then show ?case by simp
next
  case (Cons x xs)
  obtain gh1 where s1: "body x (gd, gh) = Inr (f x gd, gh1)"
    using Cons.prems [of x gd gh] by auto
  have "\<exists>gh'. for_each body xs (f x gd, gh1) = Inr (fold f xs (f x gd), gh')"
    by (rule Cons.IH) (simp add: Cons.prems)
  then show ?case by (simp add: s1)
qed

lemma row_assignments_nth:
  assumes "length (drop 1 row_fields) \<le> length (drop 1 header_fields)"
  shows "map (\<lambda>i. (row_fields ! 0, header_fields ! (i + 1), row_fields ! (i + 1)))
           [0 ..< length (drop 1 row_fields)]
         = row_assignments header_fields row_fields"
  unfolding row_assignments_def
  using assms by (intro nth_equalityI) auto

lemma add_row_stores:
  assumes "length (drop 1 (split_ws (rstrip line))) \<le> length (drop 1 header_fields)"
  shows "\<exists>gh'. add_row (header_names_of header_fields) line (gd, gh)
     = Inr (fold store_label (row_assignments header_fields (split_ws (rstrip line))) gd, gh')"
proof -
  let ?rf = "split_ws (rstrip line)"
  let ?f = "\<lambda>i. store_label (?rf ! 0, header_fields ! (i + 1), ?rf ! (i + 1))"
  have "\<exists>gh'. for_each (add_grouping (header_names_of header_fields) ?rf)
            [0 ..< length (drop 1 ?rf)] (gd, gh)
        = Inr (fold ?f [0 ..< length (drop 1 ?rf)] gd, gh')"
  proof (rule for_each_fold)
    fix i gd gh
    assume "i \<in> set [0 ..< length (drop 1 ?rf)]"
    then have "i < length (drop 1 header_fields)" using assms by simp
    then show "\<exists>gh'. add_grouping (header_names_of header_fields) ?rf i (gd, gh)
        = Inr (?f i gd, gh')"
      by (rule add_grouping_stores)
  qed
  moreover have "fold ?f [0 ..< length (drop 1 ?rf)] gd
      = fold store_label
          (map (\<lambda>i. (?rf ! 0, header_fields ! (i + 1), ?rf ! (i + 1))) [0 ..< length (drop 1 ?rf)]) gd"
    by (simp add: fold_map comp_def)
  ultimately show ?thesis
    unfolding add_row_def Let_def row_assignments_nth [OF assms] by simp
qed

lemma fold_concat_map: "fold f (concat (map g xs)) s = fold (\<lambda>x. fold f (g x)) xs s"
  by (induction xs arbitrary: s) simp_all

lemma get_groupings_stores:
  assumes "\<And>row. row \<in> set rows \<Longrightarrow> label_count row \<le> label_count header"
  shows "\<exists>systems. get_groupings (header # rows)
     = Inr (fold store_label (assignments header rows) [], systems)"
proof -
  let ?hf = "split_ws (rstrip header)"
  let ?f = "\<lambda>row. fold store_label (row_assignments ?hf (split_ws (rstrip row)))"
  have "\<exists>gh'. for_each (add_row (header_names_of ?hf)) rows ([], [])
      = Inr (fold ?f rows [], gh')"
  proof (rule for_each_fold)
    fix row gd gh
    assume "row \<in> set rows"
    then have "length (drop 1 (split_ws (rstrip row))) \<le> length (drop 1 ?hf)"
      using assms [of row] by (simp add: label_count_def)
    then show "\<exists>gh'. add_row (header_names_of ?hf) row (gd, gh) = Inr (?f row gd, gh')"
      by (rule add_row_stores)
  qed
  moreover have "fold ?f rows [] = fold store_label (assignments header rows) []"
    unfolding assignments_def by (rule fold_concat_map [symmetric])
  ultimately show ?thesis by (simp add: get_groupings_def Let_def)
qed

lemma stored_label_store:
  "stored_label (store_label (i, s, label) table) i' s'
   = (if i' = i \<and> s' = s then Some label else stored_label table i' s')"
  by (simp add: stored_label_def store_label_def update_conv' defaultdict_get_def
      split: option.splits)

lemma stored_label_fold:
  "stored_label (fold store_label triples table) i s
   = (case last_assigned triples i s of None \<Rightarrow> stored_label table i s | Some label \<Rightarrow> Some label)"
proof (induction triples arbitrary: table)
  case Nil
  then show ?case by (simp add: last_assigned_def)
next
  case (Cons t triples)
  obtain i' s' label where t: "t = (i', s', label)" by (cases t)
  have "last_assigned (t # triples) i s
      = (case last_assigned triples i s of None \<Rightarrow> (if i = i' \<and> s = s' then Some label else None)
         | Some l \<Rightarrow> Some l)"
    by (simp add: last_assigned_def t map_of_append map_add_def split: option.splits)
  then show ?case
    using Cons.IH [of "store_label t table"]
    by (auto simp: t stored_label_store split: option.splits)
qed

lemma keys_store:
  "map_of (store_label (i, s, label) table) i' \<noteq> None \<longleftrightarrow> i' = i \<or> map_of table i' \<noteq> None"
  by (simp add: store_label_def update_conv')

lemma keys_fold:
  "map_of (fold store_label triples table) i \<noteq> None
   \<longleftrightarrow> i \<in> fst ` set triples \<or> map_of table i \<noteq> None"
proof (induction triples arbitrary: table)
  case Nil
  then show ?case by simp
next
  case (Cons t triples)
  obtain i' s' label where t: "t = (i', s', label)" by (cases t)
  show ?case
    using Cons.IH [of "store_label t table"] keys_store [of i' s' label table i]
    by (auto simp: t)
qed

lemma get_groupings_fails:
  assumes "row \<in> set rows" and "label_count header < label_count row"
  shows "get_groupings (header # rows) = Inl (KeyError (IntKey (label_count header)))"
proof -
  let ?body = "add_row (header_names_of (split_ws (rstrip header)))"
  let ?e = "KeyError (IntKey (label_count header))"
  have each: "(\<exists>s'. ?body x s = Inr s') \<or> ?body x s = Inl ?e" for x s
  proof (cases "label_count x \<le> label_count header")
    case True
    then show ?thesis using add_row_ok [of x "split_ws (rstrip header)" s]
      by (simp add: label_count_def)
  next
    case False
    then show ?thesis using add_row_fails [of "split_ws (rstrip header)" x s]
      by (simp add: label_count_def)
  qed
  have "\<forall>s. ?body row s = Inl ?e"
    using assms(2) add_row_fails [of "split_ws (rstrip header)" row]
    by (simp add: label_count_def)
  then have "for_each ?body rows ([], []) = Inl ?e"
    using assms(1) each by (intro for_each_fails) auto
  then show ?thesis by (simp add: get_groupings_def Let_def)
qed

text \<open>
  C4, as stated, fails: with a header of three fields, a row of two fields and a row of
  one field are accepted. The load succeeds; the first row is stored with the one label
  it has, the second row leaves no trace.
\<close>

theorem short_row_counterexample:
  "length (split_ws (rstrip (''ID SYS1 SYS2'' @ [newline]))) = 3
   \<and> length (split_ws (rstrip (''A x'' @ [newline]))) = 2
   \<and> length (split_ws (rstrip (''B'' @ [newline]))) = 1
   \<and> get_groupings short_groups
       = Inr ([(''A'', [(''SYS1'', ''x'')])], [(''SYS1'', {''x''})])"
  by (simp add: short_groups_def get_groupings_def add_row_def
      add_grouping_def rstrip_def isspace_def split_ws_def header_names_of_def header_name_def
      defaultdict_touch_def defaultdict_get_def Let_def)

text \<open>
  C4, amended. The load fails when some row has more fields after the first than the
  header has: the exception is \<open>KeyError\<close> with the number of grouping systems of the
  header (the index of the first column in excess), whichever row it is, and the run ends
  with it before anything is written. When no row has more such fields than the header the
  load succeeds, and a row with fewer fields is accepted with the labels it has: the
  individuals of the table are those of the rows with at least one label, and the table
  gives an individual, under a grouping system, the label that the rows assign it last
  (none when no row has a field for that individual in the column of that system).
\<close>

theorem longer_rows_fail_shorter_pass:
  "((\<exists>row \<in> set rows. label_count header < label_count row) \<longrightarrow>
      get_groupings (header # rows) = Inl (KeyError (IntKey (label_count header)))
      \<and> main fmt use_fid (header # rows) vcf_lines
          = (Some (KeyError (IntKey (label_count header))), []))
   \<and> ((\<forall>row \<in> set rows. label_count row \<le> label_count header) \<longrightarrow>
      (\<exists>table systems. get_groupings (header # rows) = Inr (table, systems)
         \<and> (\<forall>individual. map_of table individual \<noteq> None
               \<longleftrightarrow> individual \<in> fst ` set (assignments header rows))
         \<and> (\<forall>individual system. stored_label table individual system
               = last_assigned (assignments header rows) individual system)))"
proof (intro conjI impI)
  assume "\<exists>row \<in> set rows. label_count header < label_count row"
  then obtain row where "row \<in> set rows" "label_count header < label_count row" by blast
  then show g: "get_groupings (header # rows) = Inl (KeyError (IntKey (label_count header)))"
    by (rule get_groupings_fails)
  show "main fmt use_fid (header # rows) vcf_lines
          = (Some (KeyError (IntKey (label_count header))), [])"
    by (simp add: main_def g)
next
  assume a: "\<forall>row \<in> set rows. label_count row \<le> label_count header"
  let ?table = "fold store_label (assignments header rows) []"
  obtain systems where g: "get_groupings (header # rows) = Inr (?table, systems)"
    using get_groupings_stores [of rows header] a by blast
  have k: "\<forall>individual. map_of ?table individual \<noteq> None
               \<longleftrightarrow> individual \<in> fst ` set (assignments header rows)"
  proof
    fix individual
    show "map_of ?table individual \<noteq> None
               \<longleftrightarrow> individual \<in> fst ` set (assignments header rows)"
      using keys_fold [of "assignments header rows" "[]" individual] by simp
  qed
  have l: "\<forall>individual system. stored_label ?table individual system
               = last_assigned (assignments header rows) individual system"
  proof (intro allI)
    fix individual system
    have "stored_label [] individual system = None" by (simp add: stored_label_def)
    then show "stored_label ?table individual system
               = last_assigned (assignments header rows) individual system"
      unfolding stored_label_fold by (simp split: option.splits)
  qed
  show "\<exists>table systems. get_groupings (header # rows) = Inr (table, systems)
         \<and> (\<forall>individual. map_of table individual \<noteq> None
               \<longleftrightarrow> individual \<in> fst ` set (assignments header rows))
         \<and> (\<forall>individual system. stored_label table individual system
               = last_assigned (assignments header rows) individual system)"
    using g k l by blast
qed

lemma short_assignments:
  "assignments (''ID SYS1 SYS2'' @ [newline]) [''A x'' @ [newline], ''B'' @ [newline]]
   = [(''A'', ''SYS1'', ''x'')]"
  by (simp add: assignments_def row_assignments_def rstrip_def isspace_def split_ws_def)

theorem longer_rows_fail_shorter_pass_witness:
  "label_count (''ID SYS1'' @ [newline]) = 1 \<and> label_count (''B y z'' @ [newline]) = 2
   \<and> get_groupings long_groups = Inl (KeyError (IntKey 1))
   \<and> main percent_fmt False long_groups [example_header, example_variant]
       = (Some (KeyError (IntKey 1)), [])
   \<and> label_count (''ID SYS1 SYS2'' @ [newline]) = 2 \<and> label_count (''A x'' @ [newline]) = 1
   \<and> label_count (''B'' @ [newline]) = 0
   \<and> (\<exists>table systems. get_groupings short_groups = Inr (table, systems)
         \<and> stored_label table ''A'' ''SYS1'' = Some ''x''
         \<and> stored_label table ''A'' ''SYS2'' = None
         \<and> map_of table ''B'' = None)"
proof -
  have bad: "\<exists>row \<in> set [''A x'' @ [newline], ''B y z'' @ [newline]].
      label_count (''ID SYS1'' @ [newline]) < label_count row"
    by (simp add: label_count_def rstrip_def isspace_def split_ws_def)
  have good: "\<forall>row \<in> set [''A x'' @ [newline], ''B'' @ [newline]].
      label_count row \<le> label_count (''ID SYS1 SYS2'' @ [newline])"
    by (simp add: label_count_def rstrip_def isspace_def split_ws_def)
  have l: "long_groups = (''ID SYS1'' @ [newline]) # [''A x'' @ [newline], ''B y z'' @ [newline]]"
    by (simp add: long_groups_def)
  have s: "short_groups = (''ID SYS1 SYS2'' @ [newline]) # [''A x'' @ [newline], ''B'' @ [newline]]"
    by (simp add: short_groups_def)
  have n: "label_count (''ID SYS1'' @ [newline]) = 1"
    by (simp add: label_count_def rstrip_def isspace_def split_ws_def)
  have long: "get_groupings long_groups = Inl (KeyError (IntKey 1))
      \<and> main percent_fmt False long_groups [example_header, example_variant]
          = (Some (KeyError (IntKey 1)), [])"
    using longer_rows_fail_shorter_pass [of "[''A x'' @ [newline], ''B y z'' @ [newline]]"
        "''ID SYS1'' @ [newline]" percent_fmt False "[example_header, example_variant]",
        THEN conjunct1, THEN mp, OF bad]
    unfolding l n .
  from longer_rows_fail_shorter_pass [of "[''A x'' @ [newline], ''B'' @ [newline]]"
        "''ID SYS1 SYS2'' @ [newline]" percent_fmt False "[]", THEN conjunct2, THEN mp, OF good]
  obtain table systems where g0: "get_groupings ((''ID SYS1 SYS2'' @ [newline])
        # [''A x'' @ [newline], ''B'' @ [newline]]) = Inr (table, systems)"
    and k: "\<forall>individual. map_of table individual \<noteq> None
               \<longleftrightarrow> individual \<in> fst ` set (assignments (''ID SYS1 SYS2'' @ [newline])
                     [''A x'' @ [newline], ''B'' @ [newline]])"
    and v: "\<forall>individual system. stored_label table individual system
               = last_assigned (assignments (''ID SYS1 SYS2'' @ [newline])
                     [''A x'' @ [newline], ''B'' @ [newline]]) individual system"
    by (elim exE conjE) (rule that)
  have g: "get_groupings short_groups = Inr (table, systems)"
    unfolding s by (rule g0)
  have v1: "stored_label table ''A'' ''SYS1'' = Some ''x''"
    unfolding v [THEN spec, THEN spec] short_assignments by (simp add: last_assigned_def)
  have v2: "stored_label table ''A'' ''SYS2'' = None"
    unfolding v [THEN spec, THEN spec] short_assignments by (simp add: last_assigned_def)
  have v3: "map_of table ''B'' = None"
    using k [THEN spec, of "''B''"] unfolding short_assignments by simp
  have short: "\<exists>table systems. get_groupings short_groups = Inr (table, systems)
         \<and> stored_label table ''A'' ''SYS1'' = Some ''x''
         \<and> stored_label table ''A'' ''SYS2'' = None
         \<and> map_of table ''B'' = None"
    using g v1 v2 v3 by blast
  have counts: "label_count (''B y z'' @ [newline]) = 2"
    "label_count (''ID SYS1 SYS2'' @ [newline]) = 2" "label_count (''A x'' @ [newline]) = 1"
    "label_count (''B'' @ [newline]) = 0"
    by (simp_all add: label_count_def rstrip_def isspace_def split_ws_def)
  show ?thesis
    by (intro conjI n counts long [THEN conjunct1] long [THEN conjunct2] short)
qed

section \<open>The output table\<close>

lemma join_first:
  "join sep (x # ys) = x @ concat (map (\<lambda>y. sep @ y) ys)"
  by (induction ys arbitrary: x) (simp_all add: join_Cons)

lemma join_append:
  "xs \<noteq> [] \<Longrightarrow> join sep (xs @ ys) = join sep xs @ concat (map (\<lambda>y. sep @ y) ys)"
  by (cases xs) (simp_all add: join_first)

lemma header_columns_pairs:
  "header_columns gs
   = concat (map (\<lambda>y. [tab] @ y)
       (concat (map (\<lambda>(group_name, members). [group_name @ ''_freq'', group_name @ ''_count''])
                    gs)))"
  unfolding header_columns_def by (induction gs) auto

lemma header_text:
  "''Chr'' @ [tab] @ ''Position'' @ [tab] @ ''rsID'' @ [tab] @ ''Ref'' @ [tab] @ ''Alt''
     @ header_columns gs = header_row gs"
  unfolding header_row_def header_columns_pairs
  by (subst join_append) simp_all

lemma write_groups:
  assumes "\<And>g m. (g, m) \<in> set ps \<Longrightarrow> map_of count g = Some (c m)"
  shows "run_loop (write_group fmt count) (map (\<lambda>(g, m). (g, f m)) ps) out
     = (None, out @ concat (map (\<lambda>(g, m). [tab] @ fmt (f m) @ [tab] @ str_nat (c m)) ps))"
  using assms
proof (induction ps arbitrary: out)
  case Nil
  then show ?case by simp
next
  case (Cons p ps)
  obtain g m where p: "p = (g, m)" by (cases p)
  have "map_of count g = Some (c m)" using Cons.prems [of g m] by (simp add: p)
  then have step: "write_group fmt count (g, f m) out
      = (None, out @ [tab] @ fmt (f m) @ [tab] @ str_nat (c m))"
    by (simp add: write_group_def dict_get_def)
  show ?case
    using Cons.IH [of "out @ [tab] @ fmt (f m) @ [tab] @ str_nat (c m)"] Cons.prems
    by (simp add: p step)
qed

lemma data_row_text:
  "join [tab] (take 5 (split_on tab line))
     @ concat (map (\<lambda>(g, m). [tab] @ a m @ [tab] @ b m) gs)
   = join [tab] (take 5 (split_on tab line) @ concat (map (\<lambda>(g, m). [a m, b m]) gs))"
proof -
  have ne: "take 5 (split_on tab line) \<noteq> []" using split_on_nonempty [of tab line] by simp
  have "concat (map (\<lambda>y. [tab] @ y) (concat (map (\<lambda>(g, m). [a m, b m]) gs)))
      = concat (map (\<lambda>(g, m). [tab] @ a m @ [tab] @ b m) gs)"
    by (induction gs) auto
  then show ?thesis by (simp add: join_append [OF ne])
qed

lemma data_line:
  assumes "st_group_sets s = Some gs"
    and "distinct (map fst gs)"
    and "\<not> startswith line ''#''"
    and "\<And>g m. (g, m) \<in> set gs \<Longrightarrow> 0 < digit_total (drop 9 (split_on tab (rstrip line))) m"
  shows "process_line fmt use_iid line s
     = (None, s\<lparr>st_ofh := st_ofh s @ data_row fmt gs (split_on tab (rstrip line)) @ [newline]\<rparr>)"
proof -
  let ?cols = "split_on tab (rstrip line)"
  let ?f = "\<lambda>m. of_nat (allele_hits (drop 9 ?cols) m) / of_nat (digit_total (drop 9 ?cols) m) :: rat"
  let ?c = "\<lambda>m. digit_total (drop 9 ?cols) m"
  have nz: "\<not> (\<exists>(g, m) \<in> set gs. digit_total (drop 9 ?cols) m = 0)"
    using assms(4) by fastforce
  have gf: "get_frequencies (drop 9 ?cols) gs
      = Inr (map (\<lambda>(g, m). (g, ?f m)) gs, map (\<lambda>(g, m). (g, ?c m)) gs)"
    unfolding get_frequencies_closed [OF assms(2)] using nz by simp
  have w: "run_loop (write_group fmt (map (\<lambda>(g, m). (g, ?c m)) gs))
        (map (\<lambda>(g, m). (g, ?f m)) gs) out
      = (None, out @ concat (map (\<lambda>(g, m). [tab] @ fmt (?f m) @ [tab] @ str_nat (?c m)) gs))"
    for out
    by (rule write_groups) (rule map_of_pairs [OF assms(2)])
  have row: "join [tab] (take 5 ?cols)
       @ concat (map (\<lambda>(g, m). [tab] @ fmt (?f m) @ [tab] @ str_nat (?c m)) gs)
     = data_row fmt gs ?cols"
    unfolding data_row_def by (rule data_row_text)
  show ?thesis
    using assms(1,3) row by (simp add: process_line_def Let_def gf w)
qed

lemma comment_line:
  "startswith line ''#'' \<Longrightarrow> \<not> startswith line ''#CHROM'' \<Longrightarrow>
   process_line fmt use_iid line s = (None, s)"
  by (simp add: process_line_def)

lemma run_loop_append:
  "run_loop body (xs @ ys) s
   = (case run_loop body xs s of (Some e, s') \<Rightarrow> (Some e, s') | (None, s') \<Rightarrow> run_loop body ys s')"
  by (induction xs arbitrary: s) (auto split: prod.splits option.splits)

lemma preamble_lines:
  "(\<And>l. l \<in> set ls \<Longrightarrow> startswith l ''#'' \<and> \<not> startswith l ''#CHROM'') \<Longrightarrow>
   run_loop (process_line fmt use_iid) ls s = (None, s)"
  by (induction ls) (simp_all add: comment_line)

lemma data_lines:
  assumes "st_group_sets s = Some gs"
    and "distinct (map fst gs)"
    and "\<And>l. l \<in> set ls \<Longrightarrow> \<not> startswith l ''#CHROM''"
    and "\<And>l g m. l \<in> set ls \<Longrightarrow> \<not> startswith l ''#'' \<Longrightarrow> (g, m) \<in> set gs \<Longrightarrow>
           0 < digit_total (drop 9 (split_on tab (rstrip l))) m"
  shows "run_loop (process_line fmt use_iid) ls s
     = (None, s\<lparr>st_ofh := st_ofh s
          @ concat (map (\<lambda>l. data_row fmt gs (split_on tab (rstrip l)) @ [newline])
                        (filter (\<lambda>l. \<not> startswith l ''#'') ls))\<rparr>)"
  using assms
proof (induction ls arbitrary: s)
  case Nil
  then show ?case by simp
next
  case (Cons l ls)
  show ?case
  proof (cases "startswith l ''#''")
    case True
    have "process_line fmt use_iid l s = (None, s)"
      using True Cons.prems(3) [of l] by (simp add: comment_line)
    then show ?thesis using True Cons.IH [of s] Cons.prems by simp
  next
    case False
    let ?s1 = "s\<lparr>st_ofh := st_ofh s @ data_row fmt gs (split_on tab (rstrip l)) @ [newline]\<rparr>"
    have step: "process_line fmt use_iid l s = (None, ?s1)"
      using Cons.prems(1,2) False Cons.prems(4) [of l] by (intro data_line) simp_all
    have "st_group_sets ?s1 = Some gs" using Cons.prems(1) by simp
    then have "run_loop (process_line fmt use_iid) ls ?s1
      = (None, ?s1\<lparr>st_ofh := st_ofh ?s1
          @ concat (map (\<lambda>l. data_row fmt gs (split_on tab (rstrip l)) @ [newline])
                        (filter (\<lambda>l. \<not> startswith l ''#'') ls))\<rparr>)"
      using Cons.prems(2,3,4) by (intro Cons.IH) simp_all
    then show ?thesis using False by (simp add: step)
  qed
qed

lemma whole_run:
  assumes "get_groupings grouping_lines = Inr (grouping_info, grouping_systems)"
    and "\<And>l. l \<in> set preamble \<Longrightarrow> startswith l ''#'' \<and> \<not> startswith l ''#CHROM''"
    and "startswith header ''#CHROM''"
    and "comprehension (resolve_sample (use_iid_of use_fid)) (drop 9 (split_on tab (rstrip header)))
         = Inr sample_names"
    and "\<And>l. l \<in> set rest \<Longrightarrow> \<not> startswith l ''#CHROM''"
    and "\<And>l g m. l \<in> set rest \<Longrightarrow> \<not> startswith l ''#'' \<Longrightarrow>
           (g, m) \<in> set (snd (build_group_sets grouping_info sample_names)) \<Longrightarrow>
           0 < digit_total (drop 9 (split_on tab (rstrip l))) m"
  shows "main fmt use_fid grouping_lines (preamble @ header # rest)
     = (None, header_row (snd (build_group_sets grouping_info sample_names)) @ [newline]
          @ concat (map (\<lambda>l. data_row fmt (snd (build_group_sets grouping_info sample_names))
                                 (split_on tab (rstrip l)) @ [newline])
                        (filter (\<lambda>l. \<not> startswith l ''#'') rest)))"
proof -
  let ?s0 = "\<lparr>st_grouping_info = grouping_info, st_group_sets = None, st_ofh = []\<rparr>"
  let ?body = "process_line fmt (use_iid_of use_fid)"
  obtain gi gs where b: "build_group_sets grouping_info sample_names = (gi, gs)"
    by (cases "build_group_sets grouping_info sample_names")
  then have gs: "snd (build_group_sets grouping_info sample_names) = gs" by simp
  have d: "distinct (map fst gs)" using group_sets_distinct [of grouping_info sample_names]
    by (simp add: gs)
  let ?s1 = "\<lparr>st_grouping_info = gi, st_group_sets = Some gs,
              st_ofh = header_row gs @ [newline]\<rparr>"
  have p: "run_loop ?body preamble ?s0 = (None, ?s0)"
    using assms(2) by (intro preamble_lines) simp
  have b0: "build_group_sets (st_grouping_info ?s0) sample_names = (gi, gs)" using b by simp
  have h: "?body header ?s0 = (None, ?s1)"
    unfolding header_line [OF assms(3,4) b0, of fmt] using header_text [of gs] by simp
  have "st_group_sets ?s1 = Some gs" by simp
  then have r: "run_loop ?body rest ?s1
     = (None, ?s1\<lparr>st_ofh := st_ofh ?s1
          @ concat (map (\<lambda>l. data_row fmt gs (split_on tab (rstrip l)) @ [newline])
                        (filter (\<lambda>l. \<not> startswith l ''#'') rest))\<rparr>)"
    using d assms(5) assms(6) [unfolded gs] by (intro data_lines) simp_all
  show ?thesis
    unfolding gs by (simp add: main_def assms(1) run_loop_append p h r)
qed

lemma str_nat_digits: "set (str_nat n) \<subseteq> set ''0123456789''"
proof (induction n rule: str_nat.induct)
  case (1 n)
  have d: "''0123456789'' ! k \<in> set ''0123456789''" if "k < 10" for k
    using that nth_mem [of k "''0123456789''"] by simp
  show ?case
  proof (cases "n < 10")
    case True
    then show ?thesis using d [of n] by (subst str_nat.simps) simp
  next
    case False
    have "n mod 10 < 10" by simp
    then show ?thesis using False 1 d [of "n mod 10"] by (subst str_nat.simps) simp
  qed
qed

lemma str_nat_tab_free: "tab \<notin> set (str_nat n)"
  using str_nat_digits [of n] by auto

lemma for_each_invariant:
  assumes "for_each body xs s = Inr s'" and "I s"
    and "\<And>x s s'. x \<in> set xs \<Longrightarrow> I s \<Longrightarrow> body x s = Inr s' \<Longrightarrow> I s'"
  shows "I s'"
  using assms
proof (induction xs arbitrary: s)
  case Nil
  then show ?case by simp
next
  case (Cons x xs)
  from Cons.prems(1) obtain s1 where s1: "body x s = Inr s1" "for_each body xs s1 = Inr s'"
    by (auto split: sum.splits)
  have i1: "I s1" by (rule Cons.prems(3) [of x s s1]) (simp_all add: Cons.prems(2) s1(1))
  show ?case
  proof (rule Cons.IH [OF s1(2) i1])
    show "I t'" if "y \<in> set xs" "I t" "body y t = Inr t'" for y t t'
      by (rule Cons.prems(3) [of y t t']) (simp_all add: that)
  qed
qed

lemma update_set: "set (AList.update k v al) \<subseteq> insert (k, v) (set al)"
  by (induction al) auto

lemma defaultdict_get_update:
  "defaultdict_get dflt (AList.update k v d) k' = (if k' = k then v else defaultdict_get dflt d k')"
  by (simp add: defaultdict_get_def update_conv')

lemma split_ws_from_tokens:
  "t \<in> set (split_ws_from cur s) \<Longrightarrow> (\<forall>c \<in> set cur. \<not> isspace c) \<Longrightarrow> \<forall>c \<in> set t. \<not> isspace c"
proof (induction s arbitrary: cur)
  case Nil
  then show ?case by (cases "cur = []") simp_all
next
  case (Cons x xs)
  show ?case
  proof (cases "isspace x")
    case True
    then have "t = rev cur \<or> t \<in> set (split_ws_from [] xs)"
      using Cons.prems(1) by (cases "cur = []") simp_all
    then show ?thesis
    proof
      assume "t = rev cur"
      then show ?thesis using Cons.prems(2) by simp
    next
      assume "t \<in> set (split_ws_from [] xs)"
      then show ?thesis by (rule Cons.IH) simp
    qed
  next
    case False
    then have "t \<in> set (split_ws_from (x # cur) xs)" using Cons.prems(1) by simp
    then show ?thesis by (rule Cons.IH) (simp add: False Cons.prems(2))
  qed
qed

lemma split_ws_tab_free: "t \<in> set (split_ws s) \<Longrightarrow> tab \<notin> set t"
proof -
  assume "t \<in> set (split_ws s)"
  then have "\<forall>c \<in> set t. \<not> isspace c"
    unfolding split_ws_def by (rule split_ws_from_tokens) simp
  moreover have "isspace tab" by (simp add: isspace_def)
  ultimately show ?thesis by blast
qed

lemma add_grouping_labels:
  assumes "add_grouping names row_fields i (gd, gh) = Inr (gd', gh')"
    and "\<And>k x. x \<in> set (defaultdict_get [] gd k) \<Longrightarrow> P (snd x)"
    and "P (row_fields ! (i + 1))"
    and "x \<in> set (defaultdict_get [] gd' k)"
  shows "P (snd x)"
proof -
  let ?id = "row_fields ! 0"
  let ?touched = "defaultdict_touch [] gd ?id"
  from assms(1) obtain system where
    gd': "gd' = AList.update ?id
        (AList.update system (row_fields ! (i + 1)) (defaultdict_get [] ?touched ?id)) ?touched"
    by (auto simp: add_grouping_def Let_def split: sum.splits)
  show ?thesis
  proof (cases "k = ?id")
    case True
    then have "x \<in> set (AList.update system (row_fields ! (i + 1)) (defaultdict_get [] gd ?id))"
      using assms(4) by (simp add: gd' defaultdict_get_update defaultdict_get_touch)
    then have "x = (system, row_fields ! (i + 1)) \<or> x \<in> set (defaultdict_get [] gd ?id)"
      using update_set [of system "row_fields ! (i + 1)" "defaultdict_get [] gd ?id"] by auto
    then show ?thesis
    proof
      assume "x = (system, row_fields ! (i + 1))"
      then show ?thesis using assms(3) by simp
    next
      assume "x \<in> set (defaultdict_get [] gd ?id)"
      then show ?thesis by (rule assms(2))
    qed
  next
    case False
    then have "x \<in> set (defaultdict_get [] gd k)"
      using assms(4) by (simp add: gd' defaultdict_get_update defaultdict_get_touch)
    then show ?thesis by (rule assms(2))
  qed
qed

lemma add_row_labels:
  assumes "add_row names line st = Inr st'"
    and "\<And>k x. x \<in> set (defaultdict_get [] (fst st) k) \<Longrightarrow> tab \<notin> set (snd x)"
    and "x \<in> set (defaultdict_get [] (fst st') k)"
  shows "tab \<notin> set (snd x)"
proof -
  let ?fs = "split_ws (rstrip line)"
  let ?I = "\<lambda>st :: grouping_dict \<times> grouping_headers.
      \<forall>k x. x \<in> set (defaultdict_get [] (fst st) k) \<longrightarrow> tab \<notin> set (snd x)"
  have run: "for_each (add_grouping names ?fs) [0 ..< length (drop 1 ?fs)] st = Inr st'"
    using assms(1) by (simp add: add_row_def Let_def)
  have step: "?I s2" if i: "i \<in> set [0 ..< length (drop 1 ?fs)]" and i1: "?I s1"
      and a: "add_grouping names ?fs i s1 = Inr s2" for i s1 s2
  proof (intro allI impI)
    fix k' y
    assume y: "y \<in> set (defaultdict_get [] (fst s2) k')"
    have "i + 1 < length ?fs" using i by auto
    then have "?fs ! (i + 1) \<in> set ?fs" by (rule nth_mem)
    then have p: "tab \<notin> set (?fs ! (i + 1))" by (rule split_ws_tab_free)
    obtain gd gh gd' gh' where s: "s1 = (gd, gh)" "s2 = (gd', gh')"
      by (cases s1, cases s2) auto
    show "tab \<notin> set (snd y)"
    proof (rule add_grouping_labels [of names ?fs i gd gh gd' gh' "\<lambda>l. tab \<notin> set l" y k'])
      show "add_grouping names ?fs i (gd, gh) = Inr (gd', gh')" using a by (simp add: s)
      show "tab \<notin> set (snd z)" if "z \<in> set (defaultdict_get [] gd k2)" for k2 z
        using i1 that by (cases z) (simp add: s)
      show "tab \<notin> set (?fs ! (i + 1))" by (rule p)
      show "y \<in> set (defaultdict_get [] gd' k')" using y by (simp add: s)
    qed
  qed
  have "?I st'"
  proof (rule for_each_invariant [OF run, of ?I])
    show "?I st" using assms(2) by simp
    show "?I s2" if "i \<in> set [0 ..< length (drop 1 ?fs)]" "?I s1"
      "add_grouping names ?fs i s1 = Inr s2" for i s1 s2
      using that by (rule step)
  qed
  then show ?thesis using assms(3) by (cases x) simp
qed

lemma get_groupings_labels:
  assumes "get_groupings grouping_lines = Inr (grouping_info, grouping_systems)"
    and "label \<in> set (labels_of grouping_info name)"
  shows "tab \<notin> set label"
proof -
  let ?I = "\<lambda>st :: grouping_dict \<times> grouping_headers.
      \<forall>k x. x \<in> set (defaultdict_get [] (fst st) k) \<longrightarrow> tab \<notin> set (snd x)"
  obtain names where run: "for_each (add_row names) (drop 1 grouping_lines) ([], [])
      = Inr (grouping_info, grouping_systems)"
    using assms(1) by (simp add: get_groupings_def Let_def)
  have "?I (grouping_info, grouping_systems)"
  proof (rule for_each_invariant [OF run, of ?I])
    show "?I ([], [])" by (simp add: defaultdict_get_def)
    show "?I s2" if "l \<in> set (drop 1 grouping_lines)" "?I s1" "add_row names l s1 = Inr s2"
      for l s1 s2
    proof (intro allI impI)
      fix k x
      assume "x \<in> set (defaultdict_get [] (fst s2) k)"
      then show "tab \<notin> set (snd x)"
      proof (rule add_row_labels [OF that(3), of x k, rotated])
        show "tab \<notin> set (snd z)" if "z \<in> set (defaultdict_get [] (fst s1) k2)" for k2 z
          using \<open>?I s1\<close> that by (cases z) simp
      qed
    qed
  qed
  moreover obtain x where "x \<in> set (defaultdict_get [] grouping_info name)" "label = snd x"
    using assms(2) by (auto simp: labels_of_def)
  ultimately show ?thesis by (cases x) simp
qed

lemma group_sets_labels:
  "set (map fst (snd (build_group_sets gi names)))
   = {label. \<exists>i < length names. label \<in> set (labels_of gi (names ! i))}"
proof -
  have "set (map snd (memberships gi names [0 ..< length names]))
      = {label. \<exists>i. (i, label) \<in> set (memberships gi names [0 ..< length names])}"
    by force
  also have "\<dots> = {label. \<exists>i < length names. label \<in> set (labels_of gi (names ! i))}"
    unfolding memberships_iff by auto
  finally show ?thesis unfolding group_sets_keys first_seen_set .
qed

lemma group_sets_length:
  "length (snd (build_group_sets gi names))
   = card {label. \<exists>i < length names. label \<in> set (labels_of gi (names ! i))}"
  using distinct_card [OF group_sets_distinct [of gi names]] group_sets_labels [of gi names]
  by simp

lemma pair_columns_length: "length (concat (map (\<lambda>(g, m). [a g m, b g m]) gs)) = 2 * length gs"
  by (induction gs) auto

lemma header_row_columns:
  assumes "\<And>g. g \<in> set (map fst gs) \<Longrightarrow> tab \<notin> set g"
  shows "split_on tab (header_row gs)
     = [''Chr'', ''Position'', ''rsID'', ''Ref'', ''Alt'']
       @ concat (map (\<lambda>(group_name, members). [group_name @ ''_freq'', group_name @ ''_count'']) gs)"
  unfolding header_row_def
proof (rule split_on_join)
  fix t
  assume "t \<in> set ([''Chr'', ''Position'', ''rsID'', ''Ref'', ''Alt'']
       @ concat (map (\<lambda>(group_name, members). [group_name @ ''_freq'', group_name @ ''_count'']) gs))"
  then consider "t \<in> set [''Chr'', ''Position'', ''rsID'', ''Ref'', ''Alt'']"
    | g m where "(g, m) \<in> set gs" "t = g @ ''_freq'' \<or> t = g @ ''_count''"
    by auto
  then show "tab \<notin> set t"
  proof cases
    case 1
    then show ?thesis by auto
  next
    case 2
    then have "tab \<notin> set g" using assms [of g] by force
    then show ?thesis using 2(2) by auto
  qed
qed simp

lemma data_row_columns:
  assumes "\<And>q. tab \<notin> set (fmt q)" and "5 \<le> length (split_on tab line)"
  shows "length (split_on tab (data_row fmt gs (split_on tab line))) = 5 + 2 * length gs"
proof -
  let ?cols = "split_on tab line"
  let ?ts = "take 5 ?cols
       @ concat (map (\<lambda>(group_name, members).
                        [fmt (of_nat (allele_hits (drop 9 ?cols) members)
                              / of_nat (digit_total (drop 9 ?cols) members)),
                         str_nat (digit_total (drop 9 ?cols) members)]) gs)"
  have ne: "?ts \<noteq> []" using assms(2) by auto
  have free: "tab \<notin> set t" if "t \<in> set ?ts" for t
  proof -
    from that consider "t \<in> set (take 5 ?cols)"
      | q where "t = fmt q" | n where "t = str_nat n"
      by auto
    then show ?thesis
    proof cases
      case 1
      then have "t \<in> set ?cols" by (rule in_set_takeD)
      then show ?thesis by (rule split_on_token_free)
    next
      case 2
      then show ?thesis using assms(1) by simp
    next
      case 3
      then show ?thesis by (simp add: str_nat_tab_free)
    qed
  qed
  have "split_on tab (data_row fmt gs ?cols) = ?ts"
    unfolding data_row_def using ne free by (rule split_on_join)
  then show ?thesis using assms(2) by (simp add: pair_columns_length)
qed

lemma data_row_split:
  assumes "\<And>q. tab \<notin> set (fmt q)"
  shows "split_on tab (data_row fmt gs (split_on tab line))
     = take 5 (split_on tab line)
       @ concat (map (\<lambda>(group_name, members).
                        [fmt (of_nat (allele_hits (drop 9 (split_on tab line)) members)
                              / of_nat (digit_total (drop 9 (split_on tab line)) members)),
                         str_nat (digit_total (drop 9 (split_on tab line)) members)]) gs)"
proof -
  let ?cols = "split_on tab line"
  let ?ts = "take 5 ?cols
       @ concat (map (\<lambda>(group_name, members).
                        [fmt (of_nat (allele_hits (drop 9 ?cols) members)
                              / of_nat (digit_total (drop 9 ?cols) members)),
                         str_nat (digit_total (drop 9 ?cols) members)]) gs)"
  have ne: "?ts \<noteq> []" using split_on_nonempty [of tab line] by simp
  have free: "tab \<notin> set t" if "t \<in> set ?ts" for t
  proof -
    from that consider "t \<in> set (take 5 ?cols)"
      | q where "t = fmt q" | n where "t = str_nat n"
      by auto
    then show ?thesis
    proof cases
      case 1
      then have "t \<in> set ?cols" by (rule in_set_takeD)
      then show ?thesis by (rule split_on_token_free)
    next
      case 2
      then show ?thesis using assms(1) by simp
    next
      case 3
      then show ?thesis by (simp add: str_nat_tab_free)
    qed
  qed
  show ?thesis
    unfolding data_row_def using ne free by (rule split_on_join)
qed

lemma data_row_length:
  assumes "\<And>q. tab \<notin> set (fmt q)" and "5 \<le> length (split_on tab line)"
  shows "length (split_on tab (data_row fmt gs (split_on tab line))) = 5 + 2 * length gs"
  unfolding data_row_split [OF assms(1)] using assms(2) by (simp add: pair_columns_length)

lemma group_labels_tab_free:
  assumes "get_groupings grouping_lines = Inr (grouping_info, grouping_systems)"
    and "g \<in> set (map fst (snd (build_group_sets grouping_info sample_names)))"
  shows "tab \<notin> set g"
proof -
  from assms(2) obtain i where "g \<in> set (labels_of grouping_info (sample_names ! i))"
    unfolding group_sets_labels by blast
  then show ?thesis by (rule get_groupings_labels [OF assms(1)])
qed

lemma percent_quarter: "percent_fmt (1 / 4) = ''25%''" "str_nat 4 = ''4''"
  by (simp_all add: percent_fmt_def str_nat.simps)

lemma percent_fmt_tab_free: "\<forall>q. tab \<notin> set (percent_fmt q)"
  by (simp add: percent_fmt_def str_nat_tab_free)

lemma example_names:
  "comprehension (resolve_sample (use_iid_of False)) (drop 9 (split_on tab (rstrip example_header)))
   = Inr [''A'', ''B'', ''C'']"
  by (simp add: example_header_def rstrip_def isspace_def resolve_sample_def use_iid_of_def
      index_from_end_def)

lemma example_chrom: "startswith example_header ''#CHROM''"
  by (simp add: example_header_def startswith_def)

lemma example_group_sets:
  "example_index = snd (build_group_sets example_table [''A'', ''B'', ''C''])"
  by (simp add: example_table_def example_index_def build_group_sets_def
      add_individual_def add_member_def defaultdict_touch_def defaultdict_get_def Let_def
      insert_commute eval_nat_numeral)

lemma example_meta_comment:
  "\<forall>l \<in> set [example_meta]. startswith l ''#'' \<and> \<not> startswith l ''#CHROM''"
  by (simp add: example_meta_def startswith_def)

lemma example_header_row: "header_row example_index @ [newline] = example_header_text"
  by (simp add: header_row_def example_index_def example_header_text_def)

lemma example_data_row:
  "data_row percent_fmt example_index (split_on tab (rstrip example_variant))
   = join [tab] [''1'', ''100'', ''rs1'', ''A'', ''G'', ''25%'', ''4'', ''100%'', ''2'']"
  unfolding data_row_def example_variant_fields
  by (simp add: example_index_def example_totals percent_half percent_quarter)

lemma example_variant_length: "length (split_on tab (rstrip example_variant)) = 12"
  by (simp add: example_variant_def rstrip_def isspace_def)

text \<open>
  C6, as stated, fails: of two data lines, the second has a group without any digit. The
  run ends with \<open>ZeroDivisionError\<close>; the first line has its row of nine columns, and of
  the second line only the five fixed columns are written, without a newline.
\<close>

theorem cut_row_counterexample:
  "\<not> startswith example_variant ''#'' \<and> \<not> startswith missing_variant ''#''
   \<and> length (split_on tab (rstrip missing_variant)) = 12
   \<and> main percent_fmt False example_groups [example_header, example_variant, missing_variant]
     = (Some ZeroDivisionError,
        example_header_text
          @ join [tab] [''1'', ''100'', ''rs1'', ''A'', ''G'', ''25%'', ''4'', ''100%'', ''2'']
          @ [newline]
          @ join [tab] [''1'', ''200'', ''rs2'', ''C'', ''T''])"
proof -
  obtain systems where g: "get_groupings example_groups = Inr (example_table, systems)"
    using example_groupings by blast
  have row1: "process_line percent_fmt (use_iid_of False) example_variant
       \<lparr>st_grouping_info = example_table, st_group_sets = Some example_index,
        st_ofh = example_header_text\<rparr>
     = (None,
        \<lparr>st_grouping_info = example_table, st_group_sets = Some example_index,
         st_ofh = example_header_text
          @ join [tab] [''1'', ''100'', ''rs1'', ''A'', ''G'', ''25%'', ''4'', ''100%'', ''2'']
          @ [newline]\<rparr>)"
    by (simp add: process_line_def example_variant_fields example_frequencies Let_def
        write_group_def dict_get_def percent_half percent_quarter)
  have row2: "process_line percent_fmt (use_iid_of False) missing_variant
       \<lparr>st_grouping_info = example_table, st_group_sets = Some example_index,
        st_ofh = out\<rparr>
     = (Some ZeroDivisionError,
        \<lparr>st_grouping_info = example_table, st_group_sets = Some example_index,
         st_ofh = out @ join [tab] [''1'', ''200'', ''rs2'', ''C'', ''T'']\<rparr>)" for out
    by (simp add: process_line_def missing_variant_fields missing_frequencies Let_def)
  have len: "length (split_on tab (rstrip missing_variant)) = 12"
    by (simp add: missing_variant_def rstrip_def isspace_def)
  have run: "main percent_fmt False example_groups
        [example_header, example_variant, missing_variant]
     = (Some ZeroDivisionError,
        example_header_text
          @ join [tab] [''1'', ''100'', ''rs1'', ''A'', ''G'', ''25%'', ''4'', ''100%'', ''2'']
          @ [newline]
          @ join [tab] [''1'', ''200'', ''rs2'', ''C'', ''T''])"
    by (simp add: main_def g example_header_line row1 row2)
  show ?thesis
    by (intro conjI example_variant_fields(3) missing_variant_fields(3) len run)
qed

text \<open>
  C6, amended. Let the variant file be comment lines, then one \<open>#CHROM\<close> line whose sample
  names all resolve, then comment lines and data lines, where every data line has at least
  five tab-separated fields and, for every group, a character that \<open>str.isdigit\<close> accepts
  in the genotype fields of the group; and let the rendering of a float have no tab. Then
  the run ends without an exception, and the output is the header line followed by one row
  for each data line, in the order of the input. The groups are the labels of the samples
  of the header, in the order in which they are first seen. The columns of the header
  line are \<open>Chr\<close>, \<open>Position\<close>, \<open>rsID\<close>, \<open>Ref\<close>, \<open>Alt\<close> and then \<open>label_freq\<close> and \<open>label_count\<close>
  for each group; the columns of a row are the first five fields of the data line and then
  the frequency and the count of each group, in the order of the header; both have
  \<open>5 + 2 * n\<close> columns for \<open>n\<close> groups.
\<close>

theorem output_table_format:
  assumes "get_groupings grouping_lines = Inr (grouping_info, grouping_systems)"
    and "\<forall>l \<in> set preamble. startswith l ''#'' \<and> \<not> startswith l ''#CHROM''"
    and "startswith header ''#CHROM''"
    and "comprehension (resolve_sample (use_iid_of use_fid))
           (drop 9 (split_on tab (rstrip header))) = Inr sample_names"
    and "group_sets = snd (build_group_sets grouping_info sample_names)"
    and "\<forall>l \<in> set rest. \<not> startswith l ''#CHROM''"
    and "\<forall>l \<in> set rest. \<not> startswith l ''#'' \<longrightarrow>
           5 \<le> length (split_on tab (rstrip l))
           \<and> (\<forall>(g, m) \<in> set group_sets. 0 < digit_total (drop 9 (split_on tab (rstrip l))) m)"
    and "\<forall>q. tab \<notin> set (fmt q)"
  shows "main fmt use_fid grouping_lines (preamble @ header # rest)
       = (None, header_row group_sets @ [newline]
            @ concat (map (\<lambda>l. data_row fmt group_sets (split_on tab (rstrip l)) @ [newline])
                          (filter (\<lambda>l. \<not> startswith l ''#'') rest)))
     \<and> map fst group_sets
         = first_seen_order (map snd (memberships grouping_info sample_names
                                        [0 ..< length sample_names]))
     \<and> length group_sets
         = card {label. \<exists>i < length sample_names.
                          label \<in> set (labels_of grouping_info (sample_names ! i))}
     \<and> split_on tab (header_row group_sets)
         = [''Chr'', ''Position'', ''rsID'', ''Ref'', ''Alt'']
           @ concat (map (\<lambda>(group_name, members).
                            [group_name @ ''_freq'', group_name @ ''_count'']) group_sets)
     \<and> length (split_on tab (header_row group_sets)) = 5 + 2 * length group_sets
     \<and> (\<forall>l \<in> set rest. \<not> startswith l ''#'' \<longrightarrow>
           split_on tab (data_row fmt group_sets (split_on tab (rstrip l)))
             = take 5 (split_on tab (rstrip l))
               @ concat (map (\<lambda>(group_name, members).
                   [fmt (of_nat (allele_hits (drop 9 (split_on tab (rstrip l))) members)
                         / of_nat (digit_total (drop 9 (split_on tab (rstrip l))) members)),
                    str_nat (digit_total (drop 9 (split_on tab (rstrip l))) members)])
                   group_sets)
           \<and> length (split_on tab (data_row fmt group_sets (split_on tab (rstrip l))))
               = 5 + 2 * length group_sets)"
proof (intro conjI ballI impI)
  show "main fmt use_fid grouping_lines (preamble @ header # rest)
       = (None, header_row group_sets @ [newline]
            @ concat (map (\<lambda>l. data_row fmt group_sets (split_on tab (rstrip l)) @ [newline])
                          (filter (\<lambda>l. \<not> startswith l ''#'') rest)))"
    unfolding assms(5)
  proof (rule whole_run [OF assms(1) _ assms(3,4)])
    show "startswith l ''#'' \<and> \<not> startswith l ''#CHROM''" if "l \<in> set preamble" for l
      using assms(2) that by blast
    show "\<not> startswith l ''#CHROM''" if "l \<in> set rest" for l
      using assms(6) that by blast
    show "0 < digit_total (drop 9 (split_on tab (rstrip l))) m"
      if "l \<in> set rest" "\<not> startswith l ''#''"
        "(g, m) \<in> set (snd (build_group_sets grouping_info sample_names))" for l g m
      using assms(7) that unfolding assms(5) by blast
  qed
  show "map fst group_sets
         = first_seen_order (map snd (memberships grouping_info sample_names
                                        [0 ..< length sample_names]))"
    unfolding assms(5) by (rule group_sets_keys)
  show "length group_sets
         = card {label. \<exists>i < length sample_names.
                          label \<in> set (labels_of grouping_info (sample_names ! i))}"
    unfolding assms(5) by (rule group_sets_length)
  show h: "split_on tab (header_row group_sets)
         = [''Chr'', ''Position'', ''rsID'', ''Ref'', ''Alt'']
           @ concat (map (\<lambda>(group_name, members).
                            [group_name @ ''_freq'', group_name @ ''_count'']) group_sets)"
    unfolding assms(5)
    by (rule header_row_columns) (rule group_labels_tab_free [OF assms(1)])
  show "length (split_on tab (header_row group_sets)) = 5 + 2 * length group_sets"
    unfolding h by (simp add: pair_columns_length)
next
  fix l
  assume l: "l \<in> set rest" "\<not> startswith l ''#''"
  have f: "tab \<notin> set (fmt q)" for q using assms(8) by blast
  show "split_on tab (data_row fmt group_sets (split_on tab (rstrip l)))
             = take 5 (split_on tab (rstrip l))
               @ concat (map (\<lambda>(group_name, members).
                   [fmt (of_nat (allele_hits (drop 9 (split_on tab (rstrip l))) members)
                         / of_nat (digit_total (drop 9 (split_on tab (rstrip l))) members)),
                    str_nat (digit_total (drop 9 (split_on tab (rstrip l))) members)])
                   group_sets)"
    by (rule data_row_split [OF f])
  have "5 \<le> length (split_on tab (rstrip l))" using assms(7) l by blast
  then show "length (split_on tab (data_row fmt group_sets (split_on tab (rstrip l))))
               = 5 + 2 * length group_sets"
    by (rule data_row_length [OF f])
qed

theorem output_table_format_witness:
  "startswith example_meta ''#'' \<and> \<not> startswith example_meta ''#CHROM''
   \<and> startswith example_header ''#CHROM''
   \<and> comprehension (resolve_sample (use_iid_of False))
        (drop 9 (split_on tab (rstrip example_header))) = Inr [''A'', ''B'', ''C'']
   \<and> example_index = snd (build_group_sets example_table [''A'', ''B'', ''C''])
   \<and> \<not> startswith example_variant ''#''
   \<and> length (split_on tab (rstrip example_variant)) = 12
   \<and> 0 < digit_total (drop 9 (split_on tab (rstrip example_variant))) {0, 2}
   \<and> 0 < digit_total (drop 9 (split_on tab (rstrip example_variant))) {Suc 0}
   \<and> main percent_fmt False example_groups [example_meta, example_header, example_variant]
       = (None, example_header_text
            @ join [tab] [''1'', ''100'', ''rs1'', ''A'', ''G'', ''25%'', ''4'', ''100%'', ''2'']
            @ [newline])
   \<and> map fst example_index = [''x'', ''y'']
   \<and> length (split_on tab (header_row example_index)) = 9
   \<and> length (split_on tab (data_row percent_fmt example_index
                 (split_on tab (rstrip example_variant)))) = 9"
proof -
  obtain systems where g: "get_groupings example_groups = Inr (example_table, systems)"
    using example_groupings by blast
  have rest1: "\<forall>l \<in> set [example_variant]. \<not> startswith l ''#CHROM''"
    using example_variant_fields(3) startswith_chrom [of example_variant] by auto
  have pos: "0 < digit_total (drop 9 (split_on tab (rstrip example_variant))) {0, 2}"
    "0 < digit_total (drop 9 (split_on tab (rstrip example_variant))) {Suc 0}"
    unfolding example_variant_fields by (simp_all add: example_totals)
  have rest2: "\<forall>l \<in> set [example_variant]. \<not> startswith l ''#'' \<longrightarrow>
           5 \<le> length (split_on tab (rstrip l))
           \<and> (\<forall>(g, m) \<in> set example_index. 0 < digit_total (drop 9 (split_on tab (rstrip l))) m)"
    using pos by (simp add: example_variant_length example_index_def)
  note t = output_table_format [OF g example_meta_comment example_chrom example_names
      example_group_sets rest1 rest2 percent_fmt_tab_free]
  have run: "main percent_fmt False example_groups [example_meta, example_header, example_variant]
       = (None, example_header_text
            @ join [tab] [''1'', ''100'', ''rs1'', ''A'', ''G'', ''25%'', ''4'', ''100%'', ''2'']
            @ [newline])"
    using t [THEN conjunct1] example_variant_fields(3)
    by (simp add: example_data_row example_header_row [symmetric])
  have hl: "length (split_on tab (header_row example_index)) = 9"
    using t [THEN conjunct2, THEN conjunct2, THEN conjunct2, THEN conjunct2, THEN conjunct1]
    by (simp add: example_index_def)
  have "example_variant \<in> set [example_variant]" by simp
  from t [THEN conjunct2, THEN conjunct2, THEN conjunct2, THEN conjunct2, THEN conjunct2,
      THEN bspec, OF this, THEN mp, OF example_variant_fields(3), THEN conjunct2]
  have dl: "length (split_on tab (data_row percent_fmt example_index
                 (split_on tab (rstrip example_variant)))) = 9"
    by (simp add: example_index_def)
  have m: "startswith example_meta ''#'' \<and> \<not> startswith example_meta ''#CHROM''"
    using example_meta_comment by simp
  have k: "map fst example_index = [''x'', ''y'']" by (simp add: example_index_def)
  show ?thesis
    by (intro conjI m [THEN conjunct1] m [THEN conjunct2] example_chrom example_names
        example_group_sets example_variant_fields(3) example_variant_length pos run k hl dl)
qed

end
